theory Spec2Isabelle
  imports Complex_Main "HOL-Library.Multiset"
begin

section \<open>JavaScript strings\<close>

text \<open>
  Strings are character lists.  Only the ASCII letters change case; every other
  character is left alone.  JavaScript numbers are modelled as reals throughout (no
  rounding, no NaN).
\<close>

definition startsWith :: "string \<Rightarrow> string \<Rightarrow> bool" where
  "startsWith s p = (take (length p) s = p)"

fun str_includes :: "string \<Rightarrow> string \<Rightarrow> bool" where
  "str_includes [] p = (p = [])"
| "str_includes (c # cs) p = (startsWith (c # cs) p \<or> str_includes cs p)"

text \<open>\<open>s.replace(pat, "")\<close> with a string pattern: the first occurrence is removed.\<close>

fun removeFirst :: "string \<Rightarrow> string \<Rightarrow> string" where
  "removeFirst pat [] = []"
| "removeFirst pat (c # cs) =
     (if startsWith (c # cs) pat then drop (length pat) (c # cs)
      else c # removeFirst pat cs)"

definition lowerChar :: "char \<Rightarrow> char" where
  "lowerChar c =
     (case map_of (zip ''ABCDEFGHIJKLMNOPQRSTUVWXYZ'' ''abcdefghijklmnopqrstuvwxyz'') c of
        None \<Rightarrow> c | Some l \<Rightarrow> l)"

definition upperChar :: "char \<Rightarrow> char" where
  "upperChar c =
     (case map_of (zip ''abcdefghijklmnopqrstuvwxyz'' ''ABCDEFGHIJKLMNOPQRSTUVWXYZ'') c of
        None \<Rightarrow> c | Some u \<Rightarrow> u)"

definition toLowerCase :: "string \<Rightarrow> string" where
  "toLowerCase s = map lowerChar s"

definition toUpperCase :: "string \<Rightarrow> string" where
  "toUpperCase s = map upperChar s"

text \<open>\<open>tag.charAt(0).toUpperCase() + tag.slice(1)\<close>\<close>

definition capitalize :: "string \<Rightarrow> string" where
  "capitalize tag = (case tag of [] \<Rightarrow> [] | c # cs \<Rightarrow> upperChar c # cs)"

definition isDigit :: "char \<Rightarrow> bool" where
  "isDigit c = (c \<in> set ''0123456789'')"

text \<open>The decimal rendering of a non-negative integer inside a template literal.\<close>

definition digitChar :: "nat \<Rightarrow> char" where
  "digitChar d = (case map_of (zip [0, 1, 2, 3, 4, 5, 6, 7, 8, 9] ''0123456789'') d of
                    None \<Rightarrow> CHR ''0'' | Some c \<Rightarrow> c)"

fun digitsOf :: "nat \<Rightarrow> string" where
  "digitsOf n = (if n < 10 then [digitChar n] else digitsOf (n div 10) @ [digitChar (n mod 10)])"

declare digitsOf.simps [simp del]

section \<open>Identifier Normalizer\<close>

text \<open>
  The helpers \<open>formatProductId\<close>, \<open>formatVariantId\<close> and \<open>formatCustomerId\<close> of
  \<^verbatim>\<open>app/routes/api.check-segment-discount.tsx\<close>.  An identifier taken from a request
  is a number, a string, or missing (\<open>undefined\<close>).  \<open>formatVariantId\<close> calls
  \<open>variantId.toString()\<close> on everything that is not a string and so throws a TypeError on
  a missing identifier; \<open>formatCustomerId\<close> calls \<open>customerId.startsWith\<close> on whatever it
  is given and so throws a TypeError on everything that is not a string.  Their results
  are options, \<open>None\<close> being the exception.
\<close>

datatype ident = IdNum nat | IdStr string | IdUndefined

definition productPrefix :: string where
  "productPrefix = ''gid://shopify/Product/''"

definition variantPrefix :: string where
  "variantPrefix = ''gid://shopify/ProductVariant/''"

definition customerPrefix :: string where
  "customerPrefix = ''gid://shopify/Customer/''"

text \<open>
  \<open>productId.match(/gid:\/\/shopify\/Product\/(\d+)/)\<close>: the leftmost position where the
  prefix is followed by at least one digit; the result is the captured digit run.
\<close>

fun matchProductGid :: "string \<Rightarrow> string option" where
  "matchProductGid [] = None"
| "matchProductGid (c # cs) =
     (if startsWith (c # cs) productPrefix
         \<and> takeWhile isDigit (drop (length productPrefix) (c # cs)) \<noteq> []
      then Some (takeWhile isDigit (drop (length productPrefix) (c # cs)))
      else matchProductGid cs)"

definition formatProductId :: "ident \<Rightarrow> string" where
  "formatProductId productId =
     (case productId of
        IdNum n \<Rightarrow> productPrefix @ digitsOf n
      | IdStr s \<Rightarrow>
          if startsWith s productPrefix then s
          else if s \<noteq> [] \<and> list_all isDigit s then productPrefix @ s
          else if str_includes s productPrefix
          then (case matchProductGid s of
                  Some digits \<Rightarrow> productPrefix @ digits
                | None \<Rightarrow> productPrefix @ s)
          else productPrefix @ s
      | IdUndefined \<Rightarrow> productPrefix @ ''undefined'')"

definition formatVariantId :: "ident \<Rightarrow> string option" where
  "formatVariantId variantId =
     (case variantId of
        IdStr s \<Rightarrow>
          if startsWith s variantPrefix then Some s
          else Some (variantPrefix @ filter isDigit s)
      | IdNum n \<Rightarrow> Some (variantPrefix @ digitsOf n)
      | IdUndefined \<Rightarrow> None)"

definition formatCustomerId :: "ident \<Rightarrow> string option" where
  "formatCustomerId customerId =
     (case customerId of
        IdStr s \<Rightarrow>
          if startsWith s customerPrefix then Some s
          else Some (customerPrefix @ filter isDigit s)
      | IdNum n \<Rightarrow> None
      | IdUndefined \<Rightarrow> None)"

section \<open>Plan Store\<close>

text \<open>
  The rows of the Prisma models \<open>DiscountPlan\<close> and \<open>Rule\<close> as the routes read them;
  \<open>percentOff\<close> is a \<open>Float\<close> column.  The table is a list in fetch order, and the string
  comparisons of \<open>findFirst\<close> and \<open>findMany\<close> are exact (PostgreSQL).
\<close>

record rule =
  categoryId :: string
  percentOff :: real

record plan =
  planName :: string
  targetType :: string
  targetKey :: string
  rules :: "rule list"

definition findFirstByKey :: "plan list \<Rightarrow> string \<Rightarrow> plan option" where
  "findFirstByKey planTable k =
     find (\<lambda>p. targetType p = ''segment'' \<and> targetKey p = k) planTable"

definition findManyIn :: "plan list \<Rightarrow> string list \<Rightarrow> plan list" where
  "findManyIn planTable keys =
     filter (\<lambda>p. targetType p = ''segment'' \<and> targetKey p \<in> set keys) planTable"

definition findManySegment :: "plan list \<Rightarrow> plan list" where
  "findManySegment planTable = filter (\<lambda>p. targetType p = ''segment'') planTable"

section \<open>Segment Matcher\<close>

text \<open>
  The cascade of the segment offer route (the \<open>action\<close> and the \<open>loader\<close> of the second
  route in \<^verbatim>\<open>unnamed/part_020\<close>): customer tags are lower-cased once, then looked up
  in the Plan Store as they are, as segment identifiers, upper-cased, capitalised, and at
  last by containment in the lower-cased \<open>targetKey\<close>.  Each step runs only when the
  steps before it found no plan.
\<close>

definition exactTagMatch :: "plan list \<Rightarrow> string list \<Rightarrow> plan list" where
  "exactTagMatch planTable customerTags = findManyIn planTable customerTags"

definition gidFormatMatch :: "plan list \<Rightarrow> string list \<Rightarrow> plan list" where
  "gidFormatMatch planTable customerTags =
     findManyIn planTable (map (\<lambda>tag. ''gid://shopify/Segment/'' @ tag) customerTags)"

definition upperCaseMatch :: "plan list \<Rightarrow> string list \<Rightarrow> plan list" where
  "upperCaseMatch planTable customerTags = findManyIn planTable (map toUpperCase customerTags)"

definition capitalizedMatch :: "plan list \<Rightarrow> string list \<Rightarrow> plan list" where
  "capitalizedMatch planTable customerTags = findManyIn planTable (map capitalize customerTags)"

definition containsMatch :: "plan list \<Rightarrow> string list \<Rightarrow> plan list" where
  "containsMatch planTable customerTags =
     filter (\<lambda>p. list_ex (\<lambda>tag. str_includes (toLowerCase (targetKey p)) tag) customerTags)
       (findManySegment planTable)"

definition findDiscountPlans :: "plan list \<Rightarrow> string list \<Rightarrow> plan list" where
  "findDiscountPlans planTable tags =
     (let customerTags = map toLowerCase tags in
      if exactTagMatch planTable customerTags \<noteq> [] then exactTagMatch planTable customerTags
      else if gidFormatMatch planTable customerTags \<noteq> []
      then gidFormatMatch planTable customerTags
      else if upperCaseMatch planTable customerTags \<noteq> []
      then upperCaseMatch planTable customerTags
      else if capitalizedMatch planTable customerTags \<noteq> []
      then capitalizedMatch planTable customerTags
      else containsMatch planTable customerTags)"

text \<open>
  The order route matches a fetched segment against the customer's tags with
  \<open>segments.find(segment => customerData.tags.includes(segment.name))\<close>.
\<close>

record segment =
  segId :: string
  segName :: string

definition findMatchedSegment :: "segment list \<Rightarrow> string list \<Rightarrow> segment option" where
  "findMatchedSegment segments tags = find (\<lambda>s. segName s \<in> set tags) segments"

section \<open>Plan Selector\<close>

text \<open>
  The same code in the segment offer route and in
  \<^verbatim>\<open>app/routes/api.test-simple-segment-offer.tsx\<close>.  The maximum of a plan is
  \<open>plan.rules.reduce((max, r) => Math.max(max, r.percentOff), 0)\<close>.
\<close>

definition planMax :: "plan \<Rightarrow> real" where
  "planMax p = foldl (\<lambda>mx r. max mx (percentOff r)) 0 (rules p)"

text \<open>
  The selection loop starts from \<open>bestPlan = null\<close>, \<open>bestPlanMaxPercent = 0\<close> and replaces
  the pair when \<open>planMax > bestPlanMaxPercent\<close>, visiting the plans in fetch order.
\<close>

fun bestPlanLoop :: "plan list \<Rightarrow> plan option \<times> real \<Rightarrow> plan option \<times> real" where
  "bestPlanLoop [] st = st"
| "bestPlanLoop (p # ps) (bestPlan, bestPlanMaxPercent) =
     (if planMax p > bestPlanMaxPercent
      then bestPlanLoop ps (Some p, planMax p)
      else bestPlanLoop ps (bestPlan, bestPlanMaxPercent))"

definition chooseBestPlan :: "plan list \<Rightarrow> plan option \<times> real" where
  "chooseBestPlan discountPlans = bestPlanLoop discountPlans (None, 0)"

text \<open>
  The guard after the loop, \<open>!bestPlan || !bestPlan.rules || bestPlan.rules.length === 0\<close>,
  answers that no plan applies; otherwise the plan is used.
\<close>

definition selectPlan :: "plan list \<Rightarrow> plan option" where
  "selectPlan discountPlans =
     (case fst (chooseBestPlan discountPlans) of
        None \<Rightarrow> None
      | Some bp \<Rightarrow> if rules bp = [] then None else Some bp)"

text \<open>
  The plan maximum in the specification's words: the greatest \<open>percentOff\<close> over the
  plan's rules, and 0 for a plan without rules.
\<close>

definition specPlanMax :: "plan \<Rightarrow> real" where
  "specPlanMax p = (if rules p = [] then 0 else Max (percentOff ` set (rules p)))"

section \<open>Rule Resolver\<close>

text \<open>
  \<open>ruleMap\<close> is a plain JavaScript object (\<open>{}\<close>) filled by \<open>forEach\<close>.  Its own
  properties are kept as an association list in insertion order.  Reading a key that is
  not an own property falls through to \<open>Object.prototype\<close>: for the names below the
  result is the inherited member (a function, or the prototype object for \<open>__proto__\<close>),
  for every other name it is \<open>undefined\<close>.
\<close>

definition objectPrototypeNames :: "string list" where
  "objectPrototypeNames =
     [''constructor'', ''__defineGetter__'', ''__defineSetter__'', ''hasOwnProperty'',
      ''__lookupGetter__'', ''__lookupSetter__'', ''isPrototypeOf'', ''propertyIsEnumerable'',
      ''toString'', ''valueOf'', ''__proto__'', ''toLocaleString'']"

datatype 'a property = Undefined | Inherited | Own 'a

definition getRule :: "(string \<times> real) list \<Rightarrow> string \<Rightarrow> real property" where
  "getRule ruleMap k =
     (case map_of ruleMap k of
        Some v \<Rightarrow> Own v
      | None \<Rightarrow> if k \<in> set objectPrototypeNames then Inherited else Undefined)"

fun assign :: "string \<Rightarrow> real \<Rightarrow> (string \<times> real) list \<Rightarrow> (string \<times> real) list" where
  "assign k v [] = [(k, v)]"
| "assign k v (e # es) = (if fst e = k then (k, v) # es else e # assign k v es)"

text \<open>
  A key is written when \<open>existing == null\<close> (the key reads as \<open>undefined\<close>) or when
  \<open>rule.percentOff > existing\<close>.  Against an inherited member the comparison is false
  (the member converts to NaN), so a rule whose \<open>categoryId\<close> is one of the inherited names
  is never written.
\<close>

definition ruleStep :: "(string \<times> real) list \<Rightarrow> rule \<Rightarrow> (string \<times> real) list" where
  "ruleStep ruleMap r =
     (case getRule ruleMap (categoryId r) of
        Undefined \<Rightarrow> assign (categoryId r) (percentOff r) ruleMap
      | Inherited \<Rightarrow> ruleMap
      | Own existing \<Rightarrow>
          if percentOff r > existing then assign (categoryId r) (percentOff r) ruleMap
          else ruleMap)"

definition buildRuleMap :: "rule list \<Rightarrow> (string \<times> real) list" where
  "buildRuleMap rs = foldl ruleStep [] rs"

text \<open>
  \<open>Object.keys\<close> lists the keys that are array indices (canonical decimal numerals below
  \<open>2^32 - 1\<close>) first, in ascending numeric order, and then the other keys in insertion
  order.
\<close>

definition digitVal :: "char \<Rightarrow> nat" where
  "digitVal c = (case map_of (zip ''0123456789'' [0, 1, 2, 3, 4, 5, 6, 7, 8, 9]) c of
                   None \<Rightarrow> 0 | Some d \<Rightarrow> d)"

definition natOf :: "string \<Rightarrow> nat" where
  "natOf s = foldl (\<lambda>n c. 10 * n + digitVal c) 0 s"

definition isArrayIndex :: "string \<Rightarrow> bool" where
  "isArrayIndex k =
     (k \<noteq> [] \<and> list_all isDigit k \<and> (k = ''0'' \<or> take 1 k \<noteq> ''0'')
      \<and> natOf k < 4294967295)"

definition objectKeys :: "(string \<times> real) list \<Rightarrow> string list" where
  "objectKeys ruleMap =
     sort_key natOf (filter isArrayIndex (map fst ruleMap))
     @ filter (\<lambda>k. \<not> isArrayIndex k) (map fst ruleMap)"

text \<open>
  The reduction as the specification words it:
  \<open>map[rule.categoryId] = max(map[rule.categoryId] ?? -inf, rule.percentOff)\<close> for each
  rule, on a map that holds nothing but what the rules put there.
\<close>

definition specStep :: "(string \<rightharpoonup> real) \<Rightarrow> rule \<Rightarrow> (string \<rightharpoonup> real)" where
  "specStep m r =
     m(categoryId r \<mapsto>
         (case m (categoryId r) of
            None \<Rightarrow> percentOff r
          | Some existing \<Rightarrow> max existing (percentOff r)))"

definition specResolve :: "rule list \<Rightarrow> (string \<rightharpoonup> real)" where
  "specResolve rs = foldl specStep Map.empty rs"

text \<open>
  The values a key has met so far: the stored one and the \<open>percentOff\<close> of the rules still
  to come (used to state the loop invariant of the reduction).
\<close>

definition seen :: "(string \<rightharpoonup> real) \<Rightarrow> rule list \<Rightarrow> string \<Rightarrow> real set" where
  "seen m rs k = set_option (m k) \<union> percentOff ` {r \<in> set rs. categoryId r = k}"

text \<open>The rules whose \<open>categoryId\<close> is not the name of an inherited member.\<close>

definition storableRules :: "rule list \<Rightarrow> rule list" where
  "storableRules rs = filter (\<lambda>r. categoryId r \<notin> set objectPrototypeNames) rs"

section \<open>Offer Builder\<close>

text \<open>
  The segment offer route after the Plan Store lookup.  Collection identifiers are shown without
  the \<open>gid://shopify/Collection/\<close> prefix; \<open>ruleMap[collectionId]\<close> is an option, \<open>None\<close>
  being \<open>undefined\<close>.
\<close>

definition collectionPrefix :: string where
  "collectionPrefix = ''gid://shopify/Collection/''"

definition numericIdOf :: "string \<Rightarrow> string" where
  "numericIdOf collectionId =
     (if startsWith collectionId collectionPrefix
      then removeFirst collectionPrefix collectionId
      else collectionId)"

record collection_entry =
  colId :: string
  colTitle :: string
  colName :: string
  colHandle :: string
  colPercentOff :: "real option"

text \<open>The entry written in the \<open>catch\<close> block and when no metadata source is available.\<close>

definition fallbackEntry :: "(string \<times> real) list \<Rightarrow> string \<Rightarrow> collection_entry" where
  "fallbackEntry ruleMap collectionId =
     \<lparr>colId = numericIdOf collectionId,
      colTitle = ''Collection '' @ numericIdOf collectionId,
      colName = ''Collection '' @ numericIdOf collectionId,
      colHandle = [],
      colPercentOff = map_of ruleMap collectionId\<rparr>"

definition fallbackCollections :: "(string \<times> real) list \<Rightarrow> collection_entry list" where
  "fallbackCollections ruleMap = map (fallbackEntry ruleMap) (objectKeys ruleMap)"

text \<open>
  A node of the metadata response, with the fields the queries ask for (\<open>productsCount\<close>
  in the \<open>loader\<close> only); \<open>None\<close> stands for a \<open>null\<close> node.  The reply \<open>FetchFails\<close>
  covers every exception of the \<open>try\<close> block: the admin authentication or the GraphQL call
  throwing, an unreadable body, a body without \<open>data\<close>.
\<close>

record node =
  nodeId :: string
  nodeTitle :: string
  nodeHandle :: string
  nodeProductsCount :: "real option"

datatype nodes_reply = FetchFails | Nodes "node option list"

text \<open>
  The metadata fetch gives nothing: it fails, or its answer holds \<open>null\<close> nodes only (what
  the service returns for identifiers it cannot resolve).
\<close>

definition metadataMissing :: "nodes_reply \<Rightarrow> bool" where
  "metadataMissing reply =
     (case reply of FetchFails \<Rightarrow> True | Nodes nodes \<Rightarrow> list_all (\<lambda>n. n = None) nodes)"

text \<open>
  \<open>collectionMap\<close> is a plain object too.  Writing the key \<open>__proto__\<close> runs the inherited
  setter, which makes the node the prototype of the map instead of storing a property;
  every other key becomes an own property.  Reading \<open>__proto__\<close> returns the prototype;
  reading any other key returns the own property, else a field of the prototype node,
  else the member inherited from \<open>Object.prototype\<close>, else \<open>undefined\<close>.
\<close>

record collection_map =
  cmOwn :: "string \<rightharpoonup> node"
  cmProto :: "node option"

datatype looked_up =
    NoValue
  | Member
  | Text string
  | Numeric real
  | NodeValue node

definition prototypeMember :: "string \<Rightarrow> looked_up" where
  "prototypeMember k = (if k \<in> set objectPrototypeNames then Member else NoValue)"

definition getNode :: "collection_map \<Rightarrow> string \<Rightarrow> looked_up" where
  "getNode collectionMap k =
     (if k = ''__proto__''
      then (case cmProto collectionMap of Some n \<Rightarrow> NodeValue n | None \<Rightarrow> Member)
      else (case cmOwn collectionMap k of
              Some n \<Rightarrow> NodeValue n
            | None \<Rightarrow>
                (case cmProto collectionMap of
                   None \<Rightarrow> prototypeMember k
                 | Some n \<Rightarrow>
                     if k = ''id'' then Text (nodeId n)
                     else if k = ''title'' then Text (nodeTitle n)
                     else if k = ''handle'' then Text (nodeHandle n)
                     else if k = ''productsCount''
                     then (case nodeProductsCount n of
                             Some c \<Rightarrow> Numeric c
                           | None \<Rightarrow> prototypeMember k)
                     else prototypeMember k)))"

definition setNode :: "collection_map \<Rightarrow> string \<Rightarrow> node \<Rightarrow> collection_map" where
  "setNode collectionMap k n =
     (if k = ''__proto__'' then collectionMap\<lparr>cmProto := Some n\<rparr>
      else collectionMap\<lparr>cmOwn := (cmOwn collectionMap)(k \<mapsto> n)\<rparr>)"

definition truthy :: "looked_up \<Rightarrow> bool" where
  "truthy v =
     (case v of
        NoValue \<Rightarrow> False
      | Member \<Rightarrow> True
      | Text s \<Rightarrow> s \<noteq> []
      | Numeric c \<Rightarrow> c \<noteq> 0
      | NodeValue n \<Rightarrow> True)"

definition collectionMapStep :: "collection_map \<Rightarrow> node option \<Rightarrow> collection_map" where
  "collectionMapStep collectionMap nd =
     (case nd of
        None \<Rightarrow> collectionMap
      | Some n \<Rightarrow>
          if nodeId n = [] then collectionMap
          else setNode (setNode collectionMap (removeFirst collectionPrefix (nodeId n)) n)
                 (nodeId n) n)"

definition buildCollectionMap :: "node option list \<Rightarrow> collection_map" where
  "buildCollectionMap nodes =
     foldl collectionMapStep \<lparr>cmOwn = Map.empty, cmProto = None\<rparr> nodes"

text \<open>
  \<open>collectionMap[numericId] || collectionMap[collectionId]\<close>, then
  \<open>collectionData?.title || `Collection ${numericId}`\<close> and
  \<open>collectionData?.handle || ''\<close>: only a node has a title and a handle.
\<close>

definition detailEntry ::
  "(string \<times> real) list \<Rightarrow> collection_map \<Rightarrow> string \<Rightarrow> collection_entry" where
  "detailEntry ruleMap collectionMap collectionId =
     (let numericId = numericIdOf collectionId;
          collectionData = (if truthy (getNode collectionMap numericId)
                            then getNode collectionMap numericId
                            else getNode collectionMap collectionId);
          shown = (case collectionData of
                     NodeValue n \<Rightarrow> if nodeTitle n = [] then ''Collection '' @ numericId
                                    else nodeTitle n
                   | _ \<Rightarrow> ''Collection '' @ numericId)
      in \<lparr>colId = numericId,
          colTitle = shown,
          colName = shown,
          colHandle = (case collectionData of NodeValue n \<Rightarrow> nodeHandle n | _ \<Rightarrow> []),
          colPercentOff = map_of ruleMap collectionId\<rparr>)"

definition detailCollections ::
  "(string \<times> real) list \<Rightarrow> node option list \<Rightarrow> collection_entry list" where
  "detailCollections ruleMap nodes =
     map (detailEntry ruleMap (buildCollectionMap nodes)) (objectKeys ruleMap)"

text \<open>The \<open>loader\<close> (GET) fetches the metadata with admin access only.\<close>

definition loaderCollections :: "(string \<times> real) list \<Rightarrow> nodes_reply \<Rightarrow> collection_entry list" where
  "loaderCollections ruleMap reply =
     (case reply of
        FetchFails \<Rightarrow> fallbackCollections ruleMap
      | Nodes nodes \<Rightarrow> detailCollections ruleMap nodes)"

text \<open>
  The \<open>action\<close> (POST) uses admin access when the authentication succeeds, else the
  store's public \<open>collections.json\<close> when a store URL was sent, else the fallback entries.
  The public listing is fetched once per collection; \<open>None\<close> is a failed fetch, which the
  inner \<open>catch\<close> turns into the fallback data of that collection.
\<close>

datatype admin_access = NoAdmin | Admin nodes_reply

record store_collection =
  scId :: string
  scTitle :: string
  scHandle :: string

definition storeNode :: "(string \<Rightarrow> store_collection list option) \<Rightarrow> string \<Rightarrow> node" where
  "storeNode storeFetch collectionId =
     (let numericId = numericIdOf collectionId;
          found = (case storeFetch collectionId of
                     None \<Rightarrow> None
                   | Some cs \<Rightarrow> find (\<lambda>c. scId c = numericId \<or> scId c = collectionId) cs)
      in case found of
           Some c \<Rightarrow> \<lparr>nodeId = collectionPrefix @ numericId, nodeTitle = scTitle c,
                      nodeHandle = scHandle c, nodeProductsCount = None\<rparr>
         | None \<Rightarrow> \<lparr>nodeId = collectionPrefix @ numericId,
                    nodeTitle = ''Collection '' @ numericId, nodeHandle = [],
                    nodeProductsCount = None\<rparr>)"

definition actionCollections ::
  "(string \<times> real) list \<Rightarrow> admin_access \<Rightarrow> string \<Rightarrow> (string \<Rightarrow> store_collection list option)
     \<Rightarrow> collection_entry list" where
  "actionCollections ruleMap admin storeUrl storeFetch =
     (case admin of
        Admin reply \<Rightarrow>
          (case reply of
             FetchFails \<Rightarrow> fallbackCollections ruleMap
           | Nodes nodes \<Rightarrow> detailCollections ruleMap nodes)
      | NoAdmin \<Rightarrow>
          if storeUrl \<noteq> []
          then detailCollections ruleMap
                 (map (\<lambda>collectionId. Some (storeNode storeFetch collectionId))
                    (objectKeys ruleMap))
          else fallbackCollections ruleMap)"

datatype offer =
    NotApplicable
  | Applicable (offerSegmentName: string) (offerPlanName: string)
      (offerCollections: "collection_entry list") (offerHighestRate: real)

definition discountApplicable :: "offer \<Rightarrow> bool" where
  "discountApplicable offer = (case offer of NotApplicable \<Rightarrow> False | Applicable _ _ _ _ \<Rightarrow> True)"

record offer_response =
  offerStatus :: nat
  offerSuccess :: bool
  offerOf :: offer

definition offerSegment :: "plan \<Rightarrow> string list \<Rightarrow> string" where
  "offerSegment bestPlan customerTags =
     (case find (\<lambda>tag. str_includes (toLowerCase (targetKey bestPlan)) tag
                      \<or> str_includes tag (toLowerCase (targetKey bestPlan))) customerTags of
        None \<Rightarrow> targetKey bestPlan
      | Some matchingTag \<Rightarrow> if matchingTag = [] then targetKey bestPlan else matchingTag)"

text \<open>
  The route from the validated customer on, with the way the collections are built as a
  parameter: \<open>loaderCollections\<close> for GET, \<open>actionCollections\<close> for POST.
\<close>

definition buildOffer ::
  "((string \<times> real) list \<Rightarrow> collection_entry list) \<Rightarrow> plan list \<Rightarrow> string list \<Rightarrow> offer_response" where
  "buildOffer collectionsOf planTable tags =
     (let discountPlans = findDiscountPlans planTable tags in
      if discountPlans = []
      then \<lparr>offerStatus = 200, offerSuccess = True, offerOf = NotApplicable\<rparr>
      else (case selectPlan discountPlans of
              None \<Rightarrow> \<lparr>offerStatus = 200, offerSuccess = True, offerOf = NotApplicable\<rparr>
            | Some bestPlan \<Rightarrow>
                \<lparr>offerStatus = 200, offerSuccess = True,
                 offerOf = Applicable (offerSegment bestPlan (map toLowerCase tags))
                             (planName bestPlan)
                             (collectionsOf (buildRuleMap (rules bestPlan)))
                             (snd (chooseBestPlan discountPlans))\<rparr>))"

definition offerLoader :: "plan list \<Rightarrow> string list \<Rightarrow> nodes_reply \<Rightarrow> offer_response" where
  "offerLoader planTable tags reply =
     buildOffer (\<lambda>ruleMap. loaderCollections ruleMap reply) planTable tags"

definition offerAction ::
  "plan list \<Rightarrow> string list \<Rightarrow> admin_access \<Rightarrow> string \<Rightarrow> (string \<Rightarrow> store_collection list option)
     \<Rightarrow> offer_response" where
  "offerAction planTable tags admin storeUrl storeFetch =
     buildOffer (\<lambda>ruleMap. actionCollections ruleMap admin storeUrl storeFetch) planTable tags"

section \<open>Order route: request and cart formats\<close>

text \<open>
  The \<open>action\<close> of \<^verbatim>\<open>app/routes/api.check-segment-discount.tsx\<close>.  A cart is a plain
  array of line objects, an object
  (the Shopify cart, whose \<open>items\<close> may be missing or not an array: \<open>None\<close>), or any other
  truthy value.  Absent fields are \<open>None\<close>.  The customer identifier of the body is passed
  on as it comes: a string, a number, or nothing.
\<close>

record cart_item =
  productId :: string
  price :: real
  quantity :: "real option"
  variantId :: string
  title :: string
  originalPrice :: "real option"
  finalPrice :: "real option"

record shopify_item =
  item_product_id :: ident
  item_variant_id :: ident
  item_price :: "real option"
  item_quantity :: "real option"
  item_title :: string
  item_original_price :: "real option"
  item_final_price :: "real option"

datatype cart = CartArray "cart_item list" | CartObject "shopify_item list option" | CartOther

record request =
  shop :: "string option"
  customerId :: ident
  cartItems :: "cart option"

text \<open>\<open>!customerId\<close> holds for a missing identifier, the empty string and the number 0.\<close>

definition truthyId :: "ident \<Rightarrow> bool" where
  "truthyId i = (case i of IdUndefined \<Rightarrow> False | IdStr s \<Rightarrow> s \<noteq> [] | IdNum n \<Rightarrow> n \<noteq> 0)"

datatype draft_order = DraftOrder (invoiceUrl: string)

record discount =
  d_productId :: string
  d_collectionId :: string
  d_percentOff :: real
  d_originalPrice :: real
  d_discountedPrice :: real
  d_discountAmount :: real

record summary =
  sm_segment :: string
  sm_planName :: string
  totalOriginalPrice :: real
  totalDiscountAmount :: real
  totalDiscountedPrice :: real
  savingsPercentage :: real
  applicableDiscounts :: "discount list"
  itemsWithDiscount :: nat
  totalItems :: nat
  highestDiscountRate :: "real option"

text \<open>One constructor for each object literal the route passes to \<open>json\<close>.\<close>

datatype body =
    ErrorBody string
  | NoSegmentBody
  | NoPlanBody
  | DraftCreatedBody draft_order summary
  | DraftFailedBody string
  | NoDiscountBody summary

record response =
  status :: nat
  body :: body

definition json :: "body \<Rightarrow> nat \<Rightarrow> response" where
  "json b st = \<lparr>status = st, body = b\<rparr>"

text \<open>
  The \<open>discountApplicable\<close> field of a response body (inside \<open>discountSummary\<close> for a
  created draft order); \<open>None\<close> when the body has no such field.
\<close>

definition bodyDiscountApplicable :: "body \<Rightarrow> bool option" where
  "bodyDiscountApplicable b =
     (case b of
        ErrorBody _ \<Rightarrow> None
      | NoSegmentBody \<Rightarrow> Some False
      | NoPlanBody \<Rightarrow> Some False
      | DraftCreatedBody _ _ \<Rightarrow> Some True
      | DraftFailedBody _ \<Rightarrow> None
      | NoDiscountBody _ \<Rightarrow> Some False)"

text \<open>\<open>x || d\<close> on a number that may be absent.\<close>

definition orElse :: "real option \<Rightarrow> real \<Rightarrow> real" where
  "orElse x d = (case x of None \<Rightarrow> d | Some v \<Rightarrow> if v = 0 then d else v)"

text \<open>
  One item of a Shopify cart object; \<open>None\<close> is the TypeError of \<open>formatVariantId\<close>.
\<close>

definition convertItem :: "shopify_item \<Rightarrow> cart_item option" where
  "convertItem item =
     (case formatVariantId (item_variant_id item) of
        None \<Rightarrow> None
      | Some v \<Rightarrow>
          Some \<lparr>productId = formatProductId (item_product_id item),
                price = orElse (item_price item) 0 / 100,
                quantity = Some (orElse (item_quantity item) 1),
                variantId = v,
                title = item_title item,
                originalPrice = Some (orElse (item_original_price item) 0 / 100),
                finalPrice = Some (orElse (item_final_price item) 0 / 100)\<rparr>)"

fun convertItems :: "shopify_item list \<Rightarrow> cart_item list option" where
  "convertItems [] = Some []"
| "convertItems (item # items) =
     (case convertItem item of
        None \<Rightarrow> None
      | Some c \<Rightarrow> (case convertItems items of None \<Rightarrow> None | Some cs \<Rightarrow> Some (c # cs)))"

definition processCart :: "cart \<Rightarrow> response + cart_item list" where
  "processCart c =
     (case c of
        CartArray items \<Rightarrow> Inr items
      | CartObject None \<Rightarrow>
          Inl (json (ErrorBody ''Invalid cart format. Expected 'items' array in cart object.'') 400)
      | CartObject (Some items) \<Rightarrow>
          (case convertItems items of
             None \<Rightarrow> Inl (json (ErrorBody ''Failed to process cart items'') 500)
           | Some processed \<Rightarrow> Inr processed)
      | CartOther \<Rightarrow>
          Inl (json (ErrorBody
                 ''Invalid cartItems format. Expected array or object with items array.'') 400))"

section \<open>Order route: external services\<close>

text \<open>
  A GraphQL call throws (\<open>Throws\<close>, which also covers an unreadable or incomplete body),
  answers with \<open>errors\<close>, or answers with data.  Every membership check is a request of
  its own, so the service is asked with the number of the check within the request
  (counting from 0) besides the shop, the access token, the product and the collection
  being checked, and may answer each check differently; the answer is the collections of
  the product, or \<open>None\<close> for a \<open>null\<close> product.
\<close>

datatype 'a reply = Throws | GraphqlErrors | Data 'a

datatype sink_reply =
    SinkThrows string
  | SinkNotJson
  | SinkGraphqlErrors
  | SinkUserErrors
  | SinkNoDraftOrder
  | SinkDraftOrder draft_order

record line_item =
  li_variantId :: string
  li_quantity :: "real option"
  li_appliedDiscount :: "real option"

record env =
  findSession :: "string \<Rightarrow> string option"
  customerQuery :: "string \<Rightarrow> string \<Rightarrow> string \<Rightarrow> string list option reply"
  segmentsQuery :: "string \<Rightarrow> string \<Rightarrow> segment list reply"
  planTable :: "plan list"
  membershipQuery :: "nat \<Rightarrow> string \<Rightarrow> string \<Rightarrow> string \<Rightarrow> string \<Rightarrow> string list option reply"
  orderSink :: "string \<Rightarrow> string \<Rightarrow> string \<Rightarrow> line_item list \<Rightarrow> sink_reply"

text \<open>The calls to the Collection Membership Oracle and to the Order Sink, in order.\<close>

datatype call =
    MembershipCheck string string
  | DraftOrderCreate string "line_item list"

text \<open>
  \<open>formatCustomerId\<close> is called inside the \<open>try\<close> block, so its TypeError is caught like a
  failed call and gives \<open>null\<close>.
\<close>

definition fetchCustomerData :: "env \<Rightarrow> string \<Rightarrow> string \<Rightarrow> ident \<Rightarrow> string list option" where
  "fetchCustomerData e sh accessToken cid =
     (case formatCustomerId cid of
        None \<Rightarrow> None
      | Some formattedCustomerId \<Rightarrow>
          (case customerQuery e sh accessToken formattedCustomerId of
             Throws \<Rightarrow> None
           | GraphqlErrors \<Rightarrow> None
           | Data customer \<Rightarrow> customer))"

definition fetchSegments :: "env \<Rightarrow> string \<Rightarrow> string \<Rightarrow> segment list option" where
  "fetchSegments e sh accessToken =
     (case segmentsQuery e sh accessToken of
        Throws \<Rightarrow> None
      | GraphqlErrors \<Rightarrow> None
      | Data segs \<Rightarrow> Some segs)"

definition checkProductInCollection ::
  "env \<Rightarrow> nat \<Rightarrow> string \<Rightarrow> string \<Rightarrow> string \<Rightarrow> string \<Rightarrow> bool" where
  "checkProductInCollection e n sh accessToken pid collectionId =
     (case membershipQuery e n sh accessToken pid collectionId of
        Throws \<Rightarrow> False
      | GraphqlErrors \<Rightarrow> False
      | Data None \<Rightarrow> False
      | Data (Some productCollections) \<Rightarrow> collectionId \<in> set productCollections)"

section \<open>Discount Calculator\<close>

text \<open>
  The inner loop over the plan's rules: one membership check per rule, and the rule
  replaces \<open>bestDiscount\<close> when the product is in its collection and its \<open>percentOff\<close> is
  greater than \<open>bestPercentOff\<close> (0 at the start).  \<open>n0\<close> is the number of checks made
  before the loop, so the check of the current rule has the number \<open>n0\<close> plus the checks
  made in the loop so far.
\<close>

record search =
  bestDiscount :: "rule option"
  bestPercentOff :: real
  checks :: "call list"

definition checkRule ::
  "env \<Rightarrow> nat \<Rightarrow> string \<Rightarrow> string \<Rightarrow> string \<Rightarrow> search \<Rightarrow> rule \<Rightarrow> search" where
  "checkRule e n0 sh accessToken pid st r =
     (let productBelongsToCollection =
            checkProductInCollection e (n0 + length (checks st)) sh accessToken pid
              (categoryId r);
          st' = st\<lparr>checks := checks st @ [MembershipCheck pid (categoryId r)]\<rparr>
      in if productBelongsToCollection \<and> percentOff r > bestPercentOff st
         then st'\<lparr>bestDiscount := Some r, bestPercentOff := percentOff r\<rparr>
         else st')"

definition findBestDiscount ::
  "env \<Rightarrow> nat \<Rightarrow> string \<Rightarrow> string \<Rightarrow> string \<Rightarrow> rule list \<Rightarrow> search" where
  "findBestDiscount e n0 sh accessToken pid rs =
     foldl (checkRule e n0 sh accessToken pid)
       \<lparr>bestDiscount = None, bestPercentOff = 0, checks = []\<rparr> rs"

text \<open>
  The outer loop over the cart lines.  \<open>quantity\<close> defaults to 1 when the line has none
  (\<open>const { productId, price, quantity = 1, title } = cartItem\<close>).
\<close>

record calc =
  c_applicable :: "discount list"
  c_totalOriginal :: real
  c_totalDiscount :: real
  c_calls :: "call list"

definition itemTotal :: "cart_item \<Rightarrow> real" where
  "itemTotal cartItem = price cartItem * (case quantity cartItem of None \<Rightarrow> 1 | Some q \<Rightarrow> q)"

definition priceItem :: "env \<Rightarrow> string \<Rightarrow> string \<Rightarrow> rule list \<Rightarrow> calc \<Rightarrow> cart_item \<Rightarrow> calc" where
  "priceItem e sh accessToken rs st cartItem =
     (let itemTotalPrice = itemTotal cartItem;
          found = findBestDiscount e (length (c_calls st)) sh accessToken
                    (productId cartItem) rs;
          st' = st\<lparr>c_totalOriginal := c_totalOriginal st + itemTotalPrice,
                   c_calls := c_calls st @ checks found\<rparr>
      in case bestDiscount found of
           None \<Rightarrow> st'
         | Some r \<Rightarrow>
             (let discountAmount = (itemTotalPrice * bestPercentOff found) / 100;
                  discountedPrice = itemTotalPrice - discountAmount
              in st'\<lparr>c_totalDiscount := c_totalDiscount st + discountAmount,
                     c_applicable := c_applicable st @
                       [\<lparr>d_productId = productId cartItem,
                         d_collectionId = categoryId r,
                         d_percentOff = bestPercentOff found,
                         d_originalPrice = itemTotalPrice,
                         d_discountedPrice = discountedPrice,
                         d_discountAmount = discountAmount\<rparr>]\<rparr>))"

definition priceCart :: "env \<Rightarrow> string \<Rightarrow> string \<Rightarrow> rule list \<Rightarrow> cart_item list \<Rightarrow> calc" where
  "priceCart e sh accessToken rs items =
     foldl (priceItem e sh accessToken rs)
       \<lparr>c_applicable = [], c_totalOriginal = 0, c_totalDiscount = 0, c_calls = []\<rparr> items"

section \<open>Order Builder\<close>

definition draftLineItem :: "discount list \<Rightarrow> cart_item \<Rightarrow> line_item" where
  "draftLineItem ads item =
     \<lparr>li_variantId = variantId item,
      li_quantity = quantity item,
      li_appliedDiscount =
        (case find (\<lambda>d. d_productId d = productId item) ads of
           None \<Rightarrow> None
         | Some d \<Rightarrow> if d_percentOff d > 0 then Some (d_percentOff d) else None)\<rparr>"

datatype draft_result = DraftSuccess draft_order | DraftFailure string

text \<open>
  \<open>createDraftOrder\<close> formats the customer identifier, builds the line items and posts
  the mutation once; whatever happens is turned into a result value, never into an
  exception.  A TypeError of \<open>formatCustomerId\<close> is caught before anything is posted.
\<close>

definition createDraftOrder ::
  "env \<Rightarrow> string \<Rightarrow> string \<Rightarrow> ident \<Rightarrow> cart_item list \<Rightarrow> discount list
     \<Rightarrow> draft_result \<times> call list" where
  "createDraftOrder e sh accessToken cid processedCartItems ads =
     (case formatCustomerId cid of
        None \<Rightarrow> (DraftFailure ''customerId.startsWith is not a function'', [])
      | Some formattedCustomerId \<Rightarrow>
          (let lineItems = map (draftLineItem ads) processedCartItems
           in (case orderSink e sh accessToken formattedCustomerId lineItems of
                 SinkThrows msg \<Rightarrow> DraftFailure msg
               | SinkNotJson \<Rightarrow> DraftFailure ''Invalid JSON response from Shopify''
               | SinkGraphqlErrors \<Rightarrow> DraftFailure ''GraphQL errors occurred''
               | SinkUserErrors \<Rightarrow> DraftFailure ''Shopify API validation errors''
               | SinkNoDraftOrder \<Rightarrow>
                   DraftFailure ''No draft order returned from Shopify API''
               | SinkDraftOrder d \<Rightarrow> DraftSuccess d,
               [DraftOrderCreate formattedCustomerId lineItems])))"

text \<open>\<open>Math.max(...xs)\<close>; \<open>None\<close> is the \<open>-Infinity\<close> of an empty argument list.\<close>

definition mathMax :: "real list \<Rightarrow> real option" where
  "mathMax xs = (case xs of [] \<Rightarrow> None | x # ys \<Rightarrow> Some (foldl max x ys))"

definition findDiscountPlan :: "plan list \<Rightarrow> segment \<Rightarrow> plan option" where
  "findDiscountPlan table matchedSegment =
     (case findFirstByKey table (segId matchedSegment) of
        Some p \<Rightarrow> Some p
      | None \<Rightarrow> findFirstByKey table (segName matchedSegment))"

text \<open>What the route knows once a plan with rules has been found.\<close>

record resolved =
  rs_shop :: string
  rs_token :: string
  rs_customerId :: ident
  rs_items :: "cart_item list"
  rs_segment :: segment
  rs_plan :: plan

definition missingFields :: response where
  "missingFields = json (ErrorBody ''Missing required fields: shop, customerId, or cartItems'') 400"

definition resolveCustomer ::
  "env \<Rightarrow> string \<Rightarrow> string \<Rightarrow> ident \<Rightarrow> cart_item list \<Rightarrow> response + resolved" where
  "resolveCustomer e sh accessToken cid processedCartItems =
     (case fetchCustomerData e sh accessToken cid of
        None \<Rightarrow> Inl (json (ErrorBody ''Customer not found'') 404)
      | Some tags \<Rightarrow>
          (case fetchSegments e sh accessToken of
             None \<Rightarrow> Inl (json (ErrorBody ''Failed to fetch segments'') 500)
           | Some segments \<Rightarrow>
               (case findMatchedSegment segments tags of
                  None \<Rightarrow> Inl (json NoSegmentBody 200)
                | Some matchedSegment \<Rightarrow>
                    (case findDiscountPlan (planTable e) matchedSegment of
                       None \<Rightarrow> Inl (json NoPlanBody 200)
                     | Some discountPlan \<Rightarrow>
                         if rules discountPlan = [] then Inl (json NoPlanBody 200)
                         else Inr \<lparr>rs_shop = sh, rs_token = accessToken, rs_customerId = cid,
                                   rs_items = processedCartItems,
                                   rs_segment = matchedSegment,
                                   rs_plan = discountPlan\<rparr>))))"

definition resolve :: "env \<Rightarrow> request \<Rightarrow> response + resolved" where
  "resolve e req =
     (case shop req of
        None \<Rightarrow> Inl missingFields
      | Some sh \<Rightarrow>
     (case cartItems req of
        None \<Rightarrow> Inl missingFields
      | Some c \<Rightarrow>
          if sh = [] \<or> \<not> truthyId (customerId req) then Inl missingFields
          else (case processCart c of
                  Inl r \<Rightarrow> Inl r
                | Inr processedCartItems \<Rightarrow>
                    if processedCartItems = []
                    then Inl (json (ErrorBody
                           ''No items found in cart. Please add products to your cart.'') 400)
                    else (case findSession e sh of
                            None \<Rightarrow> Inl (json (ErrorBody
                              ''No session found for this shop. Please ensure the app is properly installed.'')
                              401)
                          | Some accessToken \<Rightarrow>
                              resolveCustomer e sh accessToken (customerId req)
                                processedCartItems))))"

definition summaryOf :: "resolved \<Rightarrow> calc \<Rightarrow> real option \<Rightarrow> summary" where
  "summaryOf ctx st highest =
     \<lparr>sm_segment = segName (rs_segment ctx),
      sm_planName = planName (rs_plan ctx),
      totalOriginalPrice = c_totalOriginal st,
      totalDiscountAmount = c_totalDiscount st,
      totalDiscountedPrice = c_totalOriginal st - c_totalDiscount st,
      savingsPercentage =
        (if c_totalOriginal st > 0 then (c_totalDiscount st / c_totalOriginal st) * 100 else 0),
      applicableDiscounts = c_applicable st,
      itemsWithDiscount = length (c_applicable st),
      totalItems = length (rs_items ctx),
      highestDiscountRate = highest\<rparr>"

definition priceResolved :: "env \<Rightarrow> resolved \<Rightarrow> calc" where
  "priceResolved e ctx =
     priceCart e (rs_shop ctx) (rs_token ctx) (rules (rs_plan ctx)) (rs_items ctx)"

definition finish :: "env \<Rightarrow> resolved \<Rightarrow> calc \<Rightarrow> response \<times> call list" where
  "finish e ctx st =
     (if c_applicable st \<noteq> []
      then (case createDraftOrder e (rs_shop ctx) (rs_token ctx) (rs_customerId ctx)
                   (rs_items ctx) (c_applicable st) of
              (DraftSuccess d, sinkCalls) \<Rightarrow>
                (json (DraftCreatedBody d
                         (summaryOf ctx st (mathMax (map d_percentOff (c_applicable st))))) 200,
                 c_calls st @ sinkCalls)
            | (DraftFailure msg, sinkCalls) \<Rightarrow>
                (json (DraftFailedBody msg) 500, c_calls st @ sinkCalls))
      else (json (NoDiscountBody (summaryOf ctx st (Some 0))) 200, c_calls st))"

definition action :: "env \<Rightarrow> request \<Rightarrow> response \<times> call list" where
  "action e req =
     (case resolve e req of
        Inl r \<Rightarrow> (r, [])
      | Inr ctx \<Rightarrow> finish e ctx (priceResolved e ctx))"

section \<open>Views used in the statements\<close>

text \<open>
  A cart line qualifies when some rule of the plan has a positive \<open>percentOff\<close> and the
  membership check made for it answers true; \<open>n0\<close> is the number of the line's first check.
  A cart qualifies when one of its lines does; every line uses as many checks as the plan
  has rules.
\<close>

fun ruleQualifies :: "env \<Rightarrow> nat \<Rightarrow> string \<Rightarrow> string \<Rightarrow> string \<Rightarrow> rule list \<Rightarrow> bool" where
  "ruleQualifies e n sh accessToken pid [] = False"
| "ruleQualifies e n sh accessToken pid (r # rs) =
     ((checkProductInCollection e n sh accessToken pid (categoryId r) \<and> 0 < percentOff r)
      \<or> ruleQualifies e (Suc n) sh accessToken pid rs)"

definition lineQualifies ::
  "env \<Rightarrow> nat \<Rightarrow> string \<Rightarrow> string \<Rightarrow> rule list \<Rightarrow> cart_item \<Rightarrow> bool" where
  "lineQualifies e n0 sh accessToken rs cartItem =
     ruleQualifies e n0 sh accessToken (productId cartItem) rs"

fun cartQualifies ::
  "env \<Rightarrow> nat \<Rightarrow> string \<Rightarrow> string \<Rightarrow> rule list \<Rightarrow> cart_item list \<Rightarrow> bool" where
  "cartQualifies e n sh accessToken rs [] = False"
| "cartQualifies e n sh accessToken rs (cartItem # items) =
     (lineQualifies e n sh accessToken rs cartItem
      \<or> cartQualifies e (n + length rs) sh accessToken rs items)"

text \<open>
  The entry that \<open>priceItem\<close> pushes for a line, if it pushes one, and the entries of a
  whole cart.
\<close>

definition lineEntry ::
  "env \<Rightarrow> nat \<Rightarrow> string \<Rightarrow> string \<Rightarrow> rule list \<Rightarrow> cart_item \<Rightarrow> discount option" where
  "lineEntry e n0 sh accessToken rs cartItem =
     (case bestDiscount (findBestDiscount e n0 sh accessToken (productId cartItem) rs) of
        None \<Rightarrow> None
      | Some r \<Rightarrow>
          Some \<lparr>d_productId = productId cartItem,
                d_collectionId = categoryId r,
                d_percentOff =
                  bestPercentOff (findBestDiscount e n0 sh accessToken (productId cartItem) rs),
                d_originalPrice = itemTotal cartItem,
                d_discountedPrice = itemTotal cartItem
                  - (itemTotal cartItem
                     * bestPercentOff
                         (findBestDiscount e n0 sh accessToken (productId cartItem) rs))
                    / 100,
                d_discountAmount =
                  (itemTotal cartItem
                   * bestPercentOff
                       (findBestDiscount e n0 sh accessToken (productId cartItem) rs))
                  / 100\<rparr>)"

fun cartEntries ::
  "env \<Rightarrow> nat \<Rightarrow> string \<Rightarrow> string \<Rightarrow> rule list \<Rightarrow> cart_item list \<Rightarrow> discount list" where
  "cartEntries e n sh accessToken rs [] = []"
| "cartEntries e n sh accessToken rs (cartItem # items) =
     (case lineEntry e n sh accessToken rs cartItem of None \<Rightarrow> [] | Some d \<Rightarrow> [d])
     @ cartEntries e (n + length rs) sh accessToken rs items"

definition isDraftOrderCreate :: "call \<Rightarrow> bool" where
  "isDraftOrderCreate c = (case c of DraftOrderCreate _ _ \<Rightarrow> True | MembershipCheck _ _ \<Rightarrow> False)"

text \<open>
  A membership reply is a failure unless it lists the collections of the product.  In
  \<open>treatAsAbsent\<close> every failed reply is replaced by the answer "the product is in no
  collection".
\<close>

definition membershipFails :: "string list option reply \<Rightarrow> bool" where
  "membershipFails r = (case r of Data (Some _) \<Rightarrow> False | _ \<Rightarrow> True)"

definition treatAsAbsent :: "env \<Rightarrow> env" where
  "treatAsAbsent e =
     e\<lparr>membershipQuery :=
         (\<lambda>n sh accessToken pid collectionId.
            case membershipQuery e n sh accessToken pid collectionId of
              Data (Some productCollections) \<Rightarrow> Data (Some productCollections)
            | _ \<Rightarrow> Data (Some []))\<rparr>"

text \<open>
  A line of a plain-array cart that carries the same numbers as an item of a Shopify
  cart object: the same price and quantity (a quantity other than 0, which the object
  format alone replaces by 1) and the product identifier the object format would
  build; the item has a variant identifier.
\<close>

definition sameFields :: "shopify_item \<Rightarrow> cart_item \<Rightarrow> bool" where
  "sameFields item line =
     (item_price item = Some (price line) \<and> item_quantity item = quantity line
      \<and> quantity line \<noteq> Some 0
      \<and> productId line = formatProductId (item_product_id item)
      \<and> item_variant_id item \<noteq> IdUndefined)"

text \<open>
  The two handlers of the segment offer route: the \<open>loader\<close> (GET) with the reply of the
  admin fetch, and the \<open>action\<close> (POST) with the admin access, the store URL of the body
  and the replies of the store's public listing.
\<close>

datatype offer_call =
    Get nodes_reply
  | Post admin_access string "string \<Rightarrow> store_collection list option"

definition offerRoute :: "plan list \<Rightarrow> string list \<Rightarrow> offer_call \<Rightarrow> offer_response" where
  "offerRoute table tags call =
     (case call of
        Get reply \<Rightarrow> offerLoader table tags reply
      | Post admin storeUrl storeFetch \<Rightarrow> offerAction table tags admin storeUrl storeFetch)"

definition usesStoreListing :: "offer_call \<Rightarrow> bool" where
  "usesStoreListing call =
     (case call of
        Get reply \<Rightarrow> False
      | Post admin storeUrl storeFetch \<Rightarrow>
          (case admin of Admin reply \<Rightarrow> False | NoAdmin \<Rightarrow> storeUrl \<noteq> []))"

text \<open>
  The store's public listing gives nothing for a collection: the fetch fails or the
  listing does not hold the collection.  The node fetched for \<open>other\<close> is stored in
  \<open>collectionMap\<close> under its numeric identifier and under its gid; it is what the entry
  of \<open>collectionId\<close> reads when one of the two is the numeric identifier of
  \<open>collectionId\<close>.
\<close>

definition storeMissing :: "(string \<Rightarrow> store_collection list option) \<Rightarrow> string \<Rightarrow> bool" where
  "storeMissing storeFetch collectionId =
     (case storeFetch collectionId of
        None \<Rightarrow> True
      | Some cs \<Rightarrow>
          find (\<lambda>c. scId c = numericIdOf collectionId \<or> scId c = collectionId) cs = None)"

definition readBy :: "string \<Rightarrow> string \<Rightarrow> bool" where
  "readBy other collectionId =
     (numericIdOf other = numericIdOf collectionId
      \<or> collectionPrefix @ numericIdOf other = numericIdOf collectionId)"

text \<open>
  The metadata of a collection of the rule map is unavailable when the admin fetch fails
  or resolves no node, or, without admin access, when no store URL was sent or the public
  listing gives nothing for the collection (and for every other key of the rule map whose
  node its entry may read).
\<close>

definition metadataUnavailable :: "offer_call \<Rightarrow> string list \<Rightarrow> string \<Rightarrow> bool" where
  "metadataUnavailable call keys collectionId =
     (case call of
        Get reply \<Rightarrow> metadataMissing reply
      | Post admin storeUrl storeFetch \<Rightarrow>
          (case admin of
             Admin reply \<Rightarrow> metadataMissing reply
           | NoAdmin \<Rightarrow>
               storeUrl = []
               \<or> list_all (\<lambda>other. readBy other collectionId \<longrightarrow> storeMissing storeFetch other)
                    keys))"

section \<open>Example data\<close>

text \<open>
  A shop with one segment \<open>VIP\<close>, one plan for it with a 15 percent rule on collection
  42, product 1 in that collection, and an Order Sink that accepts every draft order.
\<close>

definition exampleEnv :: env where
  "exampleEnv =
     \<lparr>findSession = (\<lambda>sh. Some ''token''),
      customerQuery = (\<lambda>sh accessToken cid.
         if cid = ''gid://shopify/Customer/7'' then Data (Some [''VIP'']) else Data None),
      segmentsQuery = (\<lambda>sh accessToken.
         Data [\<lparr>segId = ''gid://shopify/Segment/1'', segName = ''VIP''\<rparr>]),
      planTable =
        [\<lparr>planName = ''VIP plan'', targetType = ''segment'', targetKey = ''VIP'',
          rules = [\<lparr>categoryId = ''gid://shopify/Collection/42'', percentOff = 15\<rparr>]\<rparr>],
      membershipQuery = (\<lambda>n sh accessToken pid collectionId.
         if pid = ''gid://shopify/Product/1''
         then Data (Some [''gid://shopify/Collection/42''])
         else if pid = ''gid://shopify/Product/2'' then GraphqlErrors
         else Data (Some [])),
      orderSink = (\<lambda>sh accessToken cid lineItems.
         SinkDraftOrder (DraftOrder ''https://shop.example/invoice/1''))\<rparr>"

definition exampleRequest :: "cart_item list \<Rightarrow> request" where
  "exampleRequest items =
     \<lparr>shop = Some ''shop.example'', customerId = IdStr ''7'',
      cartItems = Some (CartArray items)\<rparr>"

definition exampleLine :: "string \<Rightarrow> real \<Rightarrow> real \<Rightarrow> cart_item" where
  "exampleLine pid unitPrice qty =
     \<lparr>productId = pid, price = unitPrice, quantity = Some qty,
      variantId = ''gid://shopify/ProductVariant/11'', title = ''demo'',
      originalPrice = None, finalPrice = None\<rparr>"

text \<open>
  The same shop with a plan that names collection 42 in two rules, and a Membership
  Oracle that answers the checks whose numbers are in \<open>failing\<close> with an error and every
  other check with collection 42.
\<close>

definition unsteadyEnv :: "(nat \<Rightarrow> bool) \<Rightarrow> env" where
  "unsteadyEnv failing =
     exampleEnv
       \<lparr>planTable :=
          [\<lparr>planName = ''VIP plan'', targetType = ''segment'', targetKey = ''VIP'',
            rules = [\<lparr>categoryId = ''gid://shopify/Collection/42'', percentOff = 10\<rparr>,
                     \<lparr>categoryId = ''gid://shopify/Collection/42'', percentOff = 20\<rparr>]\<rparr>],
        membershipQuery := (\<lambda>n sh accessToken pid collectionId.
          if failing n then GraphqlErrors
          else Data (Some [''gid://shopify/Collection/42'']))\<rparr>"

section \<open>Plan Selector: the selected plan\<close>

lemma foldl_max_Max:
  "foldl (\<lambda>mx r. max mx (percentOff r)) a rs = Max (insert a (percentOff ` set rs))"
proof (induction rs arbitrary: a)
  case Nil
  show ?case by simp
next
  case (Cons r rs)
  have fin: "finite (percentOff ` set rs)" by simp
  have "Max (insert (max a (percentOff r)) (percentOff ` set rs))
      = max (max a (percentOff r)) (Max (insert (percentOff r) (percentOff ` set rs)))"
    using fin by (cases "set rs = {}") (simp_all add: max.assoc max.left_commute)
  also have "\<dots> = Max (insert a (insert (percentOff r) (percentOff ` set rs)))"
    using fin by (simp add: max.assoc)
  finally show ?case using Cons by simp
qed

lemma planMax_spec: "planMax p = max 0 (specPlanMax p)"
  by (simp add: planMax_def specPlanMax_def foldl_max_Max)

lemma Max_Cons_later:
  assumes "ps \<noteq> []" and "planMax p < Max (planMax ` set ps)"
  shows "Max (planMax ` set (p # ps)) = Max (planMax ` set ps)"
    and "find (\<lambda>q. planMax q = Max (planMax ` set (p # ps))) (p # ps)
         = find (\<lambda>q. planMax q = Max (planMax ` set ps)) ps"
proof -
  show m: "Max (planMax ` set (p # ps)) = Max (planMax ` set ps)"
    using assms by (simp add: max_def)
  show "find (\<lambda>q. planMax q = Max (planMax ` set (p # ps))) (p # ps)
         = find (\<lambda>q. planMax q = Max (planMax ` set ps)) ps"
    unfolding m using assms(2) by simp
qed

lemma Max_Cons_first:
  assumes "\<forall>q\<in>set ps. planMax q \<le> planMax p"
  shows "Max (planMax ` set (p # ps)) = planMax p"
proof (cases "ps = []")
  case True
  then show ?thesis by simp
next
  case False
  then have "Max (planMax ` set ps) \<le> planMax p"
    using assms by simp
  with False show ?thesis by (simp add: max_absorb1)
qed

lemma bestPlanLoop_char:
  "bestPlanLoop ps (b, m) =
     (if \<exists>p\<in>set ps. planMax p > m
      then (find (\<lambda>p. planMax p = Max (planMax ` set ps)) ps, Max (planMax ` set ps))
      else (b, m))"
proof (induction ps arbitrary: b m)
  case Nil
  show ?case by simp
next
  case (Cons p ps)
  show ?case
  proof (cases "planMax p > m")
    case True
    then have lhs: "bestPlanLoop (p # ps) (b, m) = bestPlanLoop ps (Some p, planMax p)"
      by simp
    have ex0: "\<exists>q\<in>set (p # ps). planMax q > m" using True by simp
    show ?thesis
    proof (cases "\<exists>q\<in>set ps. planMax q > planMax p")
      case ex: True
      then have ne: "ps \<noteq> []" by auto
      from ex have gt: "Max (planMax ` set ps) > planMax p"
        by (simp add: Max_gr_iff ne)
      have "bestPlanLoop ps (Some p, planMax p)
          = (find (\<lambda>p. planMax p = Max (planMax ` set ps)) ps, Max (planMax ` set ps))"
        using Cons.IH[of "Some p" "planMax p"] ex by simp
      then show ?thesis
        unfolding lhs using ex0 Max_Cons_later[OF ne gt] by simp
    next
      case nex: False
      then have le: "\<forall>q\<in>set ps. planMax q \<le> planMax p" by auto
      have "bestPlanLoop ps (Some p, planMax p) = (Some p, planMax p)"
        using Cons.IH[of "Some p" "planMax p"] nex by simp
      then show ?thesis
        unfolding lhs using ex0 Max_Cons_first[OF le] by simp
    qed
  next
    case False
    then have lhs: "bestPlanLoop (p # ps) (b, m) = bestPlanLoop ps (b, m)"
      by simp
    show ?thesis
    proof (cases "\<exists>q\<in>set ps. planMax q > m")
      case ex: True
      then have ne: "ps \<noteq> []" by auto
      from ex have gt: "Max (planMax ` set ps) > m"
        by (simp add: Max_gr_iff ne)
      with False have gt': "Max (planMax ` set ps) > planMax p" by simp
      have ex0: "\<exists>q\<in>set (p # ps). planMax q > m" using ex by simp
      have "bestPlanLoop ps (b, m)
          = (find (\<lambda>p. planMax p = Max (planMax ` set ps)) ps, Max (planMax ` set ps))"
        using Cons.IH[of b m] ex by simp
      then show ?thesis
        unfolding lhs using ex0 Max_Cons_later[OF ne gt'] by simp
    next
      case nex: False
      then have nex0: "\<not> (\<exists>q\<in>set (p # ps). planMax q > m)" using False by simp
      have "bestPlanLoop ps (b, m) = (b, m)"
        using Cons.IH[of b m] nex by simp
      then show ?thesis
        unfolding lhs using nex0 by simp
    qed
  qed
qed


lemma Max_planMax_spec:
  assumes "\<exists>p\<in>set plans. 0 < specPlanMax p"
  shows "Max (planMax ` set plans) = Max (specPlanMax ` set plans)"
    and "0 < Max (specPlanMax ` set plans)"
proof -
  from assms have ne: "set plans \<noteq> {}" by auto
  show pos: "0 < Max (specPlanMax ` set plans)"
    using assms ne by (simp add: Max_gr_iff)
  have "mono (max (0::real))"
    by (rule monoI) (simp add: max.coboundedI2)
  then have "max 0 (Max (specPlanMax ` set plans)) = Max (max 0 ` specPlanMax ` set plans)"
    using ne by (intro mono_Max_commute) simp_all
  moreover have "max 0 ` specPlanMax ` set plans = planMax ` set plans"
    by (simp add: image_image planMax_spec)
  ultimately show "Max (planMax ` set plans) = Max (specPlanMax ` set plans)"
    using pos by simp
qed

text \<open>
  Claim C1 (Plan Selector).  With \<open>planMax\<close> read as the specification defines it, the
  selected plan is the first plan in fetch order whose \<open>planMax\<close> is the greatest of all
  candidates, provided that some candidate has a positive \<open>planMax\<close>; otherwise no plan is
  selected, and the offer route then answers \<open>discountApplicable: false\<close>.
\<close>

theorem selectPlan_strictly_greatest:
  "selectPlan plans =
     (if \<exists>p\<in>set plans. 0 < specPlanMax p
      then find (\<lambda>p. specPlanMax p = Max (specPlanMax ` set plans)) plans
      else None)
   \<and> ((\<forall>p\<in>set (findDiscountPlans table tags). specPlanMax p \<le> 0) \<longrightarrow>
        offerOf (buildOffer collectionsOf table tags) = NotApplicable)"
proof -
  have main: "selectPlan plans =
     (if \<exists>p\<in>set plans. 0 < specPlanMax p
      then find (\<lambda>p. specPlanMax p = Max (specPlanMax ` set plans)) plans
      else None)" for plans
    proof (cases "\<exists>p\<in>set plans. 0 < specPlanMax p")
      case True
      note M = Max_planMax_spec[OF True]
      from True have ex: "\<exists>p\<in>set plans. 0 < planMax p"
        by (auto simp: planMax_spec less_max_iff_disj)
      have same: "find (\<lambda>p. planMax p = Max (planMax ` set plans)) plans
                = find (\<lambda>p. specPlanMax p = Max (specPlanMax ` set plans)) plans"
        unfolding M(1) using M(2) by (intro find_cong refl) (auto simp: planMax_spec max_def)
      have cb: "fst (chooseBestPlan plans)
              = find (\<lambda>p. specPlanMax p = Max (specPlanMax ` set plans)) plans"
        unfolding chooseBestPlan_def bestPlanLoop_char using ex same by simp
      have "rules bp \<noteq> []"
        if "find (\<lambda>p. specPlanMax p = Max (specPlanMax ` set plans)) plans = Some bp" for bp
      proof -
        from that have "specPlanMax bp = Max (specPlanMax ` set plans)"
          by (auto simp: find_Some_iff)
        with M(2) show ?thesis by (auto simp: specPlanMax_def)
      qed
      then show ?thesis
        unfolding selectPlan_def cb using True by (simp split: option.split)
    next
      case False
      then have "\<not> (\<exists>p\<in>set plans. 0 < planMax p)"
        by (auto simp: planMax_spec less_max_iff_disj)
      then have "fst (chooseBestPlan plans) = None"
        unfolding chooseBestPlan_def bestPlanLoop_char by simp
      with False show ?thesis by (simp add: selectPlan_def)
    qed
  have "offerOf (buildOffer collectionsOf table tags) = NotApplicable"
    if "\<forall>p\<in>set (findDiscountPlans table tags). specPlanMax p \<le> 0"
  proof -
    from that have "\<not> (\<exists>p\<in>set (findDiscountPlans table tags). 0 < specPlanMax p)"
      by (auto simp: not_less)
    then have "selectPlan (findDiscountPlans table tags) = None"
      using main[of "findDiscountPlans table tags"] by simp
    then show ?thesis by (simp add: buildOffer_def Let_def)
  qed
  with main[of plans] show ?thesis by blast
qed

theorem selectPlan_strictly_greatest_witness:
  "(\<exists>p\<in>set [\<lparr>planName = ''A'', targetType = ''segment'', targetKey = ''vip'',
                  rules = [\<lparr>categoryId = ''c1'', percentOff = 10\<rparr>]\<rparr>,
                \<lparr>planName = ''B'', targetType = ''segment'', targetKey = ''vip'',
                  rules = [\<lparr>categoryId = ''c1'', percentOff = 5\<rparr>,
                           \<lparr>categoryId = ''c2'', percentOff = 25\<rparr>]\<rparr>,
                \<lparr>planName = ''C'', targetType = ''segment'', targetKey = ''vip'',
                  rules = [\<lparr>categoryId = ''c3'', percentOff = 25\<rparr>]\<rparr>]. 0 < specPlanMax p)
   \<and> selectPlan [\<lparr>planName = ''A'', targetType = ''segment'', targetKey = ''vip'',
                  rules = [\<lparr>categoryId = ''c1'', percentOff = 10\<rparr>]\<rparr>,
                \<lparr>planName = ''B'', targetType = ''segment'', targetKey = ''vip'',
                  rules = [\<lparr>categoryId = ''c1'', percentOff = 5\<rparr>,
                           \<lparr>categoryId = ''c2'', percentOff = 25\<rparr>]\<rparr>,
                \<lparr>planName = ''C'', targetType = ''segment'', targetKey = ''vip'',
                  rules = [\<lparr>categoryId = ''c3'', percentOff = 25\<rparr>]\<rparr>]
       = Some \<lparr>planName = ''B'', targetType = ''segment'', targetKey = ''vip'',
                  rules = [\<lparr>categoryId = ''c1'', percentOff = 5\<rparr>,
                           \<lparr>categoryId = ''c2'', percentOff = 25\<rparr>]\<rparr>
   \<and> findDiscountPlans
         [\<lparr>planName = ''Z'', targetType = ''segment'', targetKey = ''vip'',
            rules = [\<lparr>categoryId = ''c1'', percentOff = 0\<rparr>]\<rparr>] [''VIP'']
       = [\<lparr>planName = ''Z'', targetType = ''segment'', targetKey = ''vip'',
            rules = [\<lparr>categoryId = ''c1'', percentOff = 0\<rparr>]\<rparr>]
   \<and> specPlanMax \<lparr>planName = ''Z'', targetType = ''segment'', targetKey = ''vip'',
            rules = [\<lparr>categoryId = ''c1'', percentOff = 0\<rparr>]\<rparr> \<le> 0
   \<and> offerOf (buildOffer fallbackCollections
                [\<lparr>planName = ''Z'', targetType = ''segment'', targetKey = ''vip'',
                   rules = [\<lparr>categoryId = ''c1'', percentOff = 0\<rparr>]\<rparr>] [''VIP''])
       = NotApplicable"
  using selectPlan_strictly_greatest
    [of "[\<lparr>planName = ''A'', targetType = ''segment'', targetKey = ''vip'',
                  rules = [\<lparr>categoryId = ''c1'', percentOff = 10\<rparr>]\<rparr>,
                \<lparr>planName = ''B'', targetType = ''segment'', targetKey = ''vip'',
                  rules = [\<lparr>categoryId = ''c1'', percentOff = 5\<rparr>,
                           \<lparr>categoryId = ''c2'', percentOff = 25\<rparr>]\<rparr>,
                \<lparr>planName = ''C'', targetType = ''segment'', targetKey = ''vip'',
                  rules = [\<lparr>categoryId = ''c3'', percentOff = 25\<rparr>]\<rparr>]"
        "[\<lparr>planName = ''Z'', targetType = ''segment'', targetKey = ''vip'',
                      rules = [\<lparr>categoryId = ''c1'', percentOff = 0\<rparr>]\<rparr>]"
        "[''VIP'']" fallbackCollections]
  by (simp add: specPlanMax_def findDiscountPlans_def exactTagMatch_def findManyIn_def
      toLowerCase_def lowerChar_def)

section \<open>Rule Resolver: maximum per collection\<close>

lemma map_of_assign: "map_of (assign k v m) = (map_of m)(k \<mapsto> v)"
  by (induction m) (auto simp: fun_eq_iff)

lemma keys_assign: "set (map fst (assign k v m)) = insert k (set (map fst m))"
  by (induction m) auto

lemma distinct_assign: "distinct (map fst m) \<Longrightarrow> distinct (map fst (assign k v m))"
  by (induction m) (auto simp: keys_assign simp del: set_map)

lemma ruleStep_inherited:
  "categoryId r \<in> set objectPrototypeNames \<Longrightarrow> map_of m (categoryId r) = None
     \<Longrightarrow> ruleStep m r = m"
  by (simp add: ruleStep_def getRule_def)

lemma map_of_ruleStep:
  "categoryId r \<notin> set objectPrototypeNames
     \<Longrightarrow> map_of (ruleStep m r) = specStep (map_of m) r"
  by (auto simp: ruleStep_def getRule_def specStep_def map_of_assign fun_eq_iff max_def
      split: option.splits)

lemma distinct_ruleStep: "distinct (map fst m) \<Longrightarrow> distinct (map fst (ruleStep m r))"
  by (simp add: ruleStep_def distinct_assign split: property.splits)

lemma distinct_foldl_ruleStep:
  "distinct (map fst m) \<Longrightarrow> distinct (map fst (foldl ruleStep m rs))"
  by (induction rs arbitrary: m) (simp_all add: distinct_ruleStep)

lemma set_objectKeys: "set (objectKeys m) = fst ` set m"
  by (auto simp: objectKeys_def)

lemma distinct_objectKeys: "distinct (map fst m) \<Longrightarrow> distinct (objectKeys m)"
  by (auto simp: objectKeys_def distinct_map_filter)

lemma distinct_keys_buildRuleMap: "distinct (objectKeys (buildRuleMap rs))"
  unfolding buildRuleMap_def by (rule distinct_objectKeys, rule distinct_foldl_ruleStep) simp

lemma map_of_foldl_ruleStep_storable:
  "\<forall>r\<in>set rs. categoryId r \<notin> set objectPrototypeNames
     \<Longrightarrow> map_of (foldl ruleStep m rs) = foldl specStep (map_of m) rs"
  by (induction rs arbitrary: m) (simp_all add: map_of_ruleStep)

lemma none_inherited_ruleStep:
  assumes "\<forall>k\<in>set objectPrototypeNames. map_of m k = None"
  shows "\<forall>k\<in>set objectPrototypeNames. map_of (ruleStep m r) k = None"
proof (cases "categoryId r \<in> set objectPrototypeNames")
  case True
  with assms have "ruleStep m r = m" by (simp add: ruleStep_inherited)
  with assms show ?thesis by simp
next
  case False
  then have "map_of (ruleStep m r) = specStep (map_of m) r" by (rule map_of_ruleStep)
  with assms False show ?thesis by (auto simp: specStep_def)
qed

lemma foldl_ruleStep_storable:
  "\<forall>k\<in>set objectPrototypeNames. map_of m k = None
     \<Longrightarrow> foldl ruleStep m rs = foldl ruleStep m (storableRules rs)"
proof (induction rs arbitrary: m)
  case Nil
  show ?case by (simp add: storableRules_def)
next
  case (Cons r rs)
  show ?case
  proof (cases "categoryId r \<in> set objectPrototypeNames")
    case True
    with Cons.prems have "ruleStep m r = m" by (simp add: ruleStep_inherited)
    with True Cons.IH[OF Cons.prems] show ?thesis by (simp add: storableRules_def)
  next
    case False
    have "\<forall>k\<in>set objectPrototypeNames. map_of (ruleStep m r) k = None"
      using Cons.prems by (rule none_inherited_ruleStep)
    from Cons.IH[OF this] False show ?thesis by (simp add: storableRules_def)
  qed
qed

lemma map_of_buildRuleMap_spec:
  "map_of (buildRuleMap rs) = specResolve (storableRules rs)"
proof -
  have "buildRuleMap rs = foldl ruleStep [] (storableRules rs)"
    unfolding buildRuleMap_def by (rule foldl_ruleStep_storable) simp
  moreover have "\<forall>r\<in>set (storableRules rs). categoryId r \<notin> set objectPrototypeNames"
    by (simp add: storableRules_def)
  ultimately show ?thesis
    by (simp add: map_of_foldl_ruleStep_storable specResolve_def)
qed

lemma finite_seen: "finite (seen m rs k)"
  by (simp add: seen_def)

lemma seen_step_other:
  "categoryId r \<noteq> k \<Longrightarrow> seen (specStep m r) rs k = seen m (r # rs) k"
  by (auto simp: seen_def specStep_def)

lemma seen_step_same_None:
  "categoryId r = k \<Longrightarrow> m k = None \<Longrightarrow> seen (specStep m r) rs k = seen m (r # rs) k"
  by (auto simp: seen_def specStep_def)

lemma seen_step_same_Some:
  assumes "categoryId r = k" and "m k = Some e"
  shows "seen (specStep m r) rs k \<noteq> {}" and "seen m (r # rs) k \<noteq> {}"
    and "Max (seen (specStep m r) rs k) = Max (seen m (r # rs) k)"
proof -
  define A where "A = percentOff ` {r \<in> set rs. categoryId r = k}"
  have l: "seen (specStep m r) rs k = insert (max e (percentOff r)) A"
    using assms by (auto simp: seen_def specStep_def A_def)
  have r: "seen m (r # rs) k = insert e (insert (percentOff r) A)"
    using assms by (auto simp: seen_def A_def)
  show "seen (specStep m r) rs k \<noteq> {}" "seen m (r # rs) k \<noteq> {}"
    by (simp_all add: l r)
  have fin: "finite A" by (simp add: A_def)
  show "Max (seen (specStep m r) rs k) = Max (seen m (r # rs) k)"
    unfolding l r using fin by (cases "A = {}") (simp_all add: max.assoc)
qed

lemma foldl_specStep:
  "foldl specStep m rs k = (if seen m rs k = {} then None else Some (Max (seen m rs k)))"
proof (induction rs arbitrary: m)
  case Nil
  show ?case by (cases "m k") (simp_all add: seen_def)
next
  case (Cons r rs)
  have "seen (specStep m r) rs k = {} \<longleftrightarrow> seen m (r # rs) k = {}"
   and "Max (seen (specStep m r) rs k) = Max (seen m (r # rs) k)"
    using seen_step_other[of r k m rs] seen_step_same_None[of r k m rs]
      seen_step_same_Some[of r k m _ rs]
    by (cases "categoryId r = k"; cases "m k"; simp)+
  then show ?case using Cons.IH[of "specStep m r"] by simp
qed

lemma specResolve_max:
  "specResolve rs k =
     (if k \<in> categoryId ` set rs
      then Some (Max (percentOff ` {r \<in> set rs. categoryId r = k}))
      else None)"
proof -
  have s: "seen Map.empty rs k = percentOff ` {r \<in> set rs. categoryId r = k}"
    by (simp add: seen_def)
  have "seen Map.empty rs k = {} \<longleftrightarrow> k \<notin> categoryId ` set rs"
    unfolding s by auto
  then show ?thesis
    unfolding specResolve_def foldl_specStep by (simp add: s)
qed

lemma specResolve_storable:
  "specResolve (storableRules rs) k =
     (if k \<in> set objectPrototypeNames then None else specResolve rs k)"
proof (cases "k \<in> set objectPrototypeNames")
  case True
  then have "k \<notin> categoryId ` set (storableRules rs)"
    by (auto simp: storableRules_def)
  with True show ?thesis by (simp add: specResolve_max)
next
  case False
  then have "{r \<in> set (storableRules rs). categoryId r = k} = {r \<in> set rs. categoryId r = k}"
    and "k \<in> categoryId ` set (storableRules rs) \<longleftrightarrow> k \<in> categoryId ` set rs"
    by (auto simp: storableRules_def)
  with False show ?thesis by (simp add: specResolve_max)
qed

lemma map_of_buildRuleMap:
  "map_of (buildRuleMap rs) k =
     (if k \<in> set objectPrototypeNames then None else specResolve rs k)"
  by (simp only: map_of_buildRuleMap_spec specResolve_storable)

lemma keys_buildRuleMap:
  "set (objectKeys (buildRuleMap rs)) = categoryId ` set rs - set objectPrototypeNames"
proof -
  have "k \<in> fst ` set (buildRuleMap rs) \<longleftrightarrow> map_of (buildRuleMap rs) k \<noteq> None" for k
    by (simp add: map_of_eq_None_iff)
  then have "k \<in> fst ` set (buildRuleMap rs)
      \<longleftrightarrow> k \<in> categoryId ` set rs - set objectPrototypeNames" for k
    by (simp add: map_of_buildRuleMap specResolve_max)
  then show ?thesis unfolding set_objectKeys by blast
qed

lemma specResolve_perm:
  assumes "mset rs' = mset rs"
  shows "specResolve rs' = specResolve rs"
proof -
  from assms have "set rs' = set rs" by (rule mset_eq_setD)
  then show ?thesis by (simp add: fun_eq_iff specResolve_max)
qed

lemma buildRuleMap_perm:
  assumes "mset rs' = mset rs"
  shows "map_of (buildRuleMap rs') = map_of (buildRuleMap rs)"
  using specResolve_perm[OF assms] by (simp add: fun_eq_iff map_of_buildRuleMap)


text \<open>
  Claim C3 (Rule Resolver).  The reduction of the specification gives every \<open>categoryId\<close>
  of the rule list the greatest \<open>percentOff\<close> of the rules that share it, whatever the
  order of the rules.  The \<open>ruleMap\<close> of the code holds the same value under every key
  that is not the name of a member inherited from \<open>Object.prototype\<close>, each key once, and
  is the same map for every permutation of the rule list; but it never stores a rule
  whose \<open>categoryId\<close> is such a name: for the single rule \<open>toString\<close> at 10 percent the
  code's map is empty, where the reduction holds 10.
\<close>

theorem buildRuleMap_inherited_names:
  "buildRuleMap [\<lparr>categoryId = ''toString'', percentOff = 10\<rparr>] = []
   \<and> specResolve [\<lparr>categoryId = ''toString'', percentOff = 10\<rparr>] ''toString'' = Some 10
   \<and> specResolve rs k =
       (if k \<in> categoryId ` set rs
        then Some (Max (set (map percentOff (filter (\<lambda>r. categoryId r = k) rs))))
        else None)
   \<and> map_of (buildRuleMap rs) k =
       (if k \<in> set objectPrototypeNames then None else specResolve rs k)
   \<and> distinct (objectKeys (buildRuleMap rs))
   \<and> (\<forall>rs'. mset rs' = mset rs \<longrightarrow>
         specResolve rs' = specResolve rs
         \<and> map_of (buildRuleMap rs') = map_of (buildRuleMap rs))"
proof (intro conjI allI impI)
  show "buildRuleMap [\<lparr>categoryId = ''toString'', percentOff = 10\<rparr>] = []"
    by (simp add: buildRuleMap_def ruleStep_def getRule_def objectPrototypeNames_def)
next
  show "specResolve [\<lparr>categoryId = ''toString'', percentOff = 10\<rparr>] ''toString'' = Some 10"
    by (simp add: specResolve_def specStep_def)
next
  have "set (map percentOff (filter (\<lambda>r. categoryId r = k) rs))
      = percentOff ` {r \<in> set rs. categoryId r = k}"
    by simp
  then show "specResolve rs k =
     (if k \<in> categoryId ` set rs
      then Some (Max (set (map percentOff (filter (\<lambda>r. categoryId r = k) rs))))
      else None)"
    by (simp only: specResolve_max)
next
  show "map_of (buildRuleMap rs) k =
       (if k \<in> set objectPrototypeNames then None else specResolve rs k)"
    by (rule map_of_buildRuleMap)
next
  show "distinct (objectKeys (buildRuleMap rs))"
    by (rule distinct_keys_buildRuleMap)
next
  fix rs' :: "rule list"
  assume "mset rs' = mset rs"
  then show "specResolve rs' = specResolve rs"
    by (rule specResolve_perm)
next
  fix rs' :: "rule list"
  assume "mset rs' = mset rs"
  then show "map_of (buildRuleMap rs') = map_of (buildRuleMap rs)"
    by (rule buildRuleMap_perm)
qed

theorem buildRuleMap_inherited_names_witness:
  "mset [\<lparr>categoryId = ''c'', percentOff = 20\<rparr>, \<lparr>categoryId = ''c'', percentOff = 10\<rparr>]
     = mset [\<lparr>categoryId = ''c'', percentOff = 10\<rparr>, \<lparr>categoryId = ''c'', percentOff = 20\<rparr>]
   \<and> map_of (buildRuleMap
        [\<lparr>categoryId = ''c'', percentOff = 10\<rparr>, \<lparr>categoryId = ''c'', percentOff = 20\<rparr>]) ''c''
       = Some 20
   \<and> map_of (buildRuleMap
        [\<lparr>categoryId = ''c'', percentOff = 20\<rparr>, \<lparr>categoryId = ''c'', percentOff = 10\<rparr>])
       = map_of (buildRuleMap
        [\<lparr>categoryId = ''c'', percentOff = 10\<rparr>, \<lparr>categoryId = ''c'', percentOff = 20\<rparr>])"
proof -
  let ?a = "\<lparr>categoryId = ''c'', percentOff = 10\<rparr>"
  let ?b = "\<lparr>categoryId = ''c'', percentOff = 20\<rparr>"
  note inst = buildRuleMap_inherited_names[of "[?a, ?b]" "''c''"]
  have perm: "mset [?b, ?a] = mset [?a, ?b]"
    by (simp add: add.commute)
  have spec: "specResolve [?a, ?b] ''c'' = Some 20"
    using inst[THEN conjunct2, THEN conjunct2, THEN conjunct1] by simp
  have val: "map_of (buildRuleMap [?a, ?b]) ''c'' = Some 20"
    using inst[THEN conjunct2, THEN conjunct2, THEN conjunct2, THEN conjunct1] spec
    by (simp add: objectPrototypeNames_def)
  have eq: "map_of (buildRuleMap [?b, ?a]) = map_of (buildRuleMap [?a, ?b])"
    using inst[THEN conjunct2, THEN conjunct2, THEN conjunct2, THEN conjunct2, THEN conjunct2]
      perm by blast
  from perm val eq show ?thesis by (intro conjI)
qed

section \<open>Identifier Normalizer: prefixes\<close>

lemma startsWith_append: "startsWith (p @ t) p"
  by (simp add: startsWith_def)

lemma startsWith_refl: "startsWith p p"
  by (simp add: startsWith_def)

lemma startsWith_formatProductId: "startsWith (formatProductId x) productPrefix"
proof (cases x)
  case (IdStr s)
  then show ?thesis
    unfolding formatProductId_def
    by (cases "matchProductGid s") (simp_all add: startsWith_append startsWith_refl)
qed (simp_all add: formatProductId_def startsWith_append)

lemma startsWith_formatVariantId:
  "formatVariantId x = Some y \<Longrightarrow> startsWith y variantPrefix"
  by (cases x) (auto simp: formatVariantId_def startsWith_append split: if_splits)

lemma startsWith_formatCustomerId:
  "formatCustomerId x = Some y \<Longrightarrow> startsWith y customerPrefix"
  by (cases x) (auto simp: formatCustomerId_def startsWith_append split: if_splits)

lemma takeWhile_drop_digit:
  "takeWhile isDigit (drop n s) \<noteq> [] \<Longrightarrow> list_ex isDigit s"
proof -
  assume "takeWhile isDigit (drop n s) \<noteq> []"
  then obtain d where "d \<in> set (takeWhile isDigit (drop n s))"
    by (cases "takeWhile isDigit (drop n s)") auto
  then have "d \<in> set (drop n s)" and "isDigit d"
    by (auto dest: set_takeWhileD)
  then show ?thesis
    by (auto simp: list_ex_iff dest: in_set_dropD)
qed

lemma matchProductGid_no_digit: "\<not> list_ex isDigit s \<Longrightarrow> matchProductGid s = None"
proof (induction s)
  case Nil
  show ?case by simp
next
  case (Cons c cs)
  from Cons.prems have "takeWhile isDigit (drop (length productPrefix) (c # cs)) = []"
    using takeWhile_drop_digit[of "length productPrefix" "c # cs"] by blast
  moreover from Cons.prems have "\<not> list_ex isDigit cs" by simp
  ultimately show ?case using Cons.IH by simp
qed

lemma no_digit_filter: "\<not> list_ex isDigit s \<Longrightarrow> filter isDigit s = []"
  by (induction s) auto

lemma no_digit_not_all: "\<not> list_ex isDigit s \<Longrightarrow> \<not> (s \<noteq> [] \<and> list_all isDigit s)"
  by (cases s) auto

text \<open>
  Claim C7 (Identifier Normalizer), as amended.  An identifier that already starts with
  the canonical prefix is returned unchanged, and normalising a result again returns it
  unchanged.  No string makes a normalizer throw, and no number makes \<open>formatProductId\<close>
  (which has no failing branch) or \<open>formatVariantId\<close> throw.  A string without any digit that
  lacks the prefix is not returned unchanged: \<open>formatProductId\<close> puts the prefix before
  it, and \<open>formatVariantId\<close> and \<open>formatCustomerId\<close> return the bare prefix.
\<close>

theorem format_ids_prefixed_idempotent:
  "(startsWith p productPrefix \<longrightarrow> formatProductId (IdStr p) = p)
   \<and> (startsWith v variantPrefix \<longrightarrow> formatVariantId (IdStr v) = Some v)
   \<and> (startsWith c customerPrefix \<longrightarrow> formatCustomerId (IdStr c) = Some c)
   \<and> formatProductId (IdStr (formatProductId x)) = formatProductId x
   \<and> (formatVariantId x = Some y \<longrightarrow> formatVariantId (IdStr y) = Some y)
   \<and> (formatCustomerId z = Some w \<longrightarrow> formatCustomerId (IdStr w) = Some w)
   \<and> formatVariantId (IdStr v) \<noteq> None
   \<and> formatCustomerId (IdStr c) \<noteq> None
   \<and> formatVariantId (IdNum n) \<noteq> None
   \<and> (\<not> list_ex isDigit m \<and> \<not> startsWith m productPrefix \<longrightarrow>
        formatProductId (IdStr m) = productPrefix @ m)
   \<and> (\<not> list_ex isDigit m \<and> \<not> startsWith m variantPrefix \<longrightarrow>
        formatVariantId (IdStr m) = Some variantPrefix)
   \<and> (\<not> list_ex isDigit m \<and> \<not> startsWith m customerPrefix \<longrightarrow>
        formatCustomerId (IdStr m) = Some customerPrefix)"
proof (intro conjI impI)
  show "formatProductId (IdStr p) = p" if "startsWith p productPrefix"
    using that by (simp add: formatProductId_def)
  show "formatVariantId (IdStr v) = Some v" if "startsWith v variantPrefix"
    using that by (simp add: formatVariantId_def)
  show "formatCustomerId (IdStr c) = Some c" if "startsWith c customerPrefix"
    using that by (simp add: formatCustomerId_def)
  show "formatProductId (IdStr (formatProductId x)) = formatProductId x"
    using startsWith_formatProductId[of x] by (simp add: formatProductId_def)
  show "formatVariantId (IdStr y) = Some y" if "formatVariantId x = Some y"
    using startsWith_formatVariantId[OF that] by (simp add: formatVariantId_def)
  show "formatCustomerId (IdStr w) = Some w" if "formatCustomerId z = Some w"
    using startsWith_formatCustomerId[OF that] by (simp add: formatCustomerId_def)
  show "formatVariantId (IdStr v) \<noteq> None"
    by (simp add: formatVariantId_def)
  show "formatCustomerId (IdStr c) \<noteq> None"
    by (simp add: formatCustomerId_def)
  show "formatVariantId (IdNum n) \<noteq> None"
    by (simp add: formatVariantId_def)
  show "formatProductId (IdStr m) = productPrefix @ m"
    if "\<not> list_ex isDigit m \<and> \<not> startsWith m productPrefix"
    using that no_digit_not_all[of m] matchProductGid_no_digit[of m]
    by (simp add: formatProductId_def)
  show "formatVariantId (IdStr m) = Some variantPrefix"
    if "\<not> list_ex isDigit m \<and> \<not> startsWith m variantPrefix"
    using that no_digit_filter[of m] by (simp add: formatVariantId_def)
  show "formatCustomerId (IdStr m) = Some customerPrefix"
    if "\<not> list_ex isDigit m \<and> \<not> startsWith m customerPrefix"
    using that no_digit_filter[of m] by (simp add: formatCustomerId_def)
qed

theorem format_ids_prefixed_idempotent_witness:
  "formatProductId (IdStr ''gid://shopify/Product/42'') = ''gid://shopify/Product/42''
   \<and> formatVariantId (IdStr ''gid://shopify/ProductVariant/7'') = Some ''gid://shopify/ProductVariant/7''
   \<and> formatCustomerId (IdStr ''gid://shopify/Customer/9'') = Some ''gid://shopify/Customer/9''
   \<and> formatVariantId (IdStr ''v-12'') = Some ''gid://shopify/ProductVariant/12''
   \<and> formatVariantId (IdStr ''gid://shopify/ProductVariant/12'') = Some ''gid://shopify/ProductVariant/12''
   \<and> formatCustomerId (IdStr ''c-7'') = Some ''gid://shopify/Customer/7''
   \<and> formatCustomerId (IdStr ''gid://shopify/Customer/7'') = Some ''gid://shopify/Customer/7''
   \<and> formatProductId (IdStr ''abc'') = ''gid://shopify/Product/abc''
   \<and> formatVariantId (IdStr ''abc'') = Some ''gid://shopify/ProductVariant/''
   \<and> formatCustomerId (IdStr ''abc'') = Some ''gid://shopify/Customer/''"
proof -
  have a: "formatVariantId (IdStr ''v-12'') = Some ''gid://shopify/ProductVariant/12''"
    by (simp add: formatVariantId_def startsWith_def variantPrefix_def isDigit_def)
  have b: "formatCustomerId (IdStr ''c-7'') = Some ''gid://shopify/Customer/7''"
    by (simp add: formatCustomerId_def startsWith_def customerPrefix_def isDigit_def)
  show ?thesis
    using a b
      format_ids_prefixed_idempotent
        [where p = "''gid://shopify/Product/42''" and v = "''gid://shopify/ProductVariant/7''"
           and c = "''gid://shopify/Customer/9''" and x = "IdStr ''v-12''"
           and y = "''gid://shopify/ProductVariant/12''" and m = "''abc''"
           and z = "IdStr ''c-7''" and w = "''gid://shopify/Customer/7''"]
    by (simp add: startsWith_def productPrefix_def variantPrefix_def customerPrefix_def
        isDigit_def)
qed

theorem format_ids_unchanged_counterexample:
  "formatProductId (IdStr ''abc'') \<noteq> ''abc''
   \<and> formatVariantId (IdStr ''abc'') \<noteq> Some ''abc''
   \<and> formatCustomerId (IdStr ''abc'') \<noteq> Some ''abc''"
  by (simp add: formatProductId_def formatVariantId_def formatCustomerId_def startsWith_def
      productPrefix_def variantPrefix_def customerPrefix_def isDigit_def)

section \<open>Segment Matcher: the first strategy\<close>

lemma str_includes_self: "str_includes s s"
  by (cases s) (simp_all add: startsWith_def)

lemma findDiscountPlans_first:
  "exactTagMatch table (map toLowerCase tags) \<noteq> [] \<Longrightarrow>
     findDiscountPlans table tags = exactTagMatch table (map toLowerCase tags)"
  by (simp add: findDiscountPlans_def Let_def)

lemma containsMatch_same_letters:
  assumes "p \<in> set table" and "targetType p = ''segment''" and "tag \<in> set tags"
    and "toLowerCase (targetKey p) = toLowerCase tag"
  shows "p \<in> set (containsMatch table (map toLowerCase tags))"
proof -
  have "str_includes (toLowerCase (targetKey p)) (toLowerCase tag)"
    using assms(4) str_includes_self[of "toLowerCase tag"] by simp
  with assms(3) have "list_ex (\<lambda>t. str_includes (toLowerCase (targetKey p)) t) (map toLowerCase tags)"
    by (auto simp: list_ex_iff)
  with assms(1,2) show ?thesis
    by (simp add: containsMatch_def findManySegment_def)
qed

lemma findDiscountPlans_same_letters:
  assumes "p \<in> set table" and "targetType p = ''segment''" and "tag \<in> set tags"
    and "toLowerCase (targetKey p) = toLowerCase tag"
  shows "findDiscountPlans table tags \<noteq> []"
proof -
  have "containsMatch table (map toLowerCase tags) \<noteq> []"
    using containsMatch_same_letters[OF assms] by auto
  then show ?thesis
    by (simp add: findDiscountPlans_def Let_def)
qed

text \<open>
  Claim C4 (Segment Matcher, strategy 1), as amended.  The first strategy compares the
  lower-cased tag with \<open>targetKey\<close> exactly: a plan is matched there if and only if its
  \<open>targetKey\<close> is the lower-cased form of one of the tags, and such a match ends the
  cascade.  A tag that equals the \<open>targetKey\<close> only up to letter case is still matched by
  the cascade as a whole, which then finds some plan.  The order route compares segment
  names with the tags exactly.
\<close>

theorem exactTagMatch_lower_cased_tag:
  "(p \<in> set (exactTagMatch table (map toLowerCase tags)) \<longleftrightarrow>
      p \<in> set table \<and> targetType p = ''segment''
      \<and> (\<exists>tag\<in>set tags. targetKey p = toLowerCase tag))
   \<and> (exactTagMatch table (map toLowerCase tags) \<noteq> [] \<longrightarrow>
        findDiscountPlans table tags = exactTagMatch table (map toLowerCase tags))
   \<and> (p \<in> set table \<and> targetType p = ''segment'' \<and> tag \<in> set tags
        \<and> toLowerCase (targetKey p) = toLowerCase tag \<longrightarrow>
        findDiscountPlans table tags \<noteq> [])
   \<and> findMatchedSegment segments tags
       = find (\<lambda>s. \<exists>tag\<in>set tags. segName s = tag) segments"
proof (intro conjI impI)
  show "p \<in> set (exactTagMatch table (map toLowerCase tags)) \<longleftrightarrow>
      p \<in> set table \<and> targetType p = ''segment''
      \<and> (\<exists>tag\<in>set tags. targetKey p = toLowerCase tag)"
    by (auto simp: exactTagMatch_def findManyIn_def)
  show "findDiscountPlans table tags = exactTagMatch table (map toLowerCase tags)"
    if "exactTagMatch table (map toLowerCase tags) \<noteq> []"
    using that by (rule findDiscountPlans_first)
  show "findDiscountPlans table tags \<noteq> []"
    if "p \<in> set table \<and> targetType p = ''segment'' \<and> tag \<in> set tags
        \<and> toLowerCase (targetKey p) = toLowerCase tag"
    using that findDiscountPlans_same_letters[of p table tag tags] by blast
  show "findMatchedSegment segments tags
       = find (\<lambda>s. \<exists>tag\<in>set tags. segName s = tag) segments"
    unfolding findMatchedSegment_def by (intro find_cong refl) auto
qed

theorem exactTagMatch_lower_cased_tag_witness:
  "\<lparr>planName = ''Gold plan'', targetType = ''segment'', targetKey = ''gold'',
      rules = [\<lparr>categoryId = ''42'', percentOff = 20\<rparr>]\<rparr>
     \<in> set (exactTagMatch
          [\<lparr>planName = ''Gold plan'', targetType = ''segment'', targetKey = ''gold'',
             rules = [\<lparr>categoryId = ''42'', percentOff = 20\<rparr>]\<rparr>] (map toLowerCase [''Gold'']))
   \<and> findDiscountPlans
        [\<lparr>planName = ''Gold plan'', targetType = ''segment'', targetKey = ''gold'',
           rules = [\<lparr>categoryId = ''42'', percentOff = 20\<rparr>]\<rparr>] [''Gold'']
       = exactTagMatch
        [\<lparr>planName = ''Gold plan'', targetType = ''segment'', targetKey = ''gold'',
           rules = [\<lparr>categoryId = ''42'', percentOff = 20\<rparr>]\<rparr>] (map toLowerCase [''Gold''])
   \<and> findDiscountPlans
        [\<lparr>planName = ''Gold plan'', targetType = ''segment'', targetKey = ''gold'',
           rules = [\<lparr>categoryId = ''42'', percentOff = 20\<rparr>]\<rparr>] [''Gold''] \<noteq> []"
proof -
  let ?p = "\<lparr>planName = ''Gold plan'', targetType = ''segment'', targetKey = ''gold'',
      rules = [\<lparr>categoryId = ''42'', percentOff = 20\<rparr>]\<rparr>"
  note inst = exactTagMatch_lower_cased_tag[of ?p "[?p]" "[''Gold'']" "''Gold''" "[]"]
  have low: "toLowerCase ''Gold'' = ''gold''"
    by (simp add: toLowerCase_def lowerChar_def)
  have low': "toLowerCase ''gold'' = ''gold''"
    by (simp add: toLowerCase_def lowerChar_def)
  have m: "?p \<in> set (exactTagMatch [?p] (map toLowerCase [''Gold'']))"
    using inst[THEN conjunct1] low by simp
  then have ne: "exactTagMatch [?p] (map toLowerCase [''Gold'']) \<noteq> []"
    by auto
  have f: "findDiscountPlans [?p] [''Gold''] = exactTagMatch [?p] (map toLowerCase [''Gold''])"
    using inst[THEN conjunct2, THEN conjunct1] ne by blast
  have g: "findDiscountPlans [?p] [''Gold''] \<noteq> []"
    using inst[THEN conjunct2, THEN conjunct2, THEN conjunct1] low low' by simp
  from m f g show ?thesis by (intro conjI)
qed

theorem exactTagMatch_case_insensitive_counterexample:
  "toLowerCase ''vip'' = toLowerCase ''VIP''
   \<and> exactTagMatch
        [\<lparr>planName = ''VIP plan'', targetType = ''segment'', targetKey = ''VIP'',
           rules = [\<lparr>categoryId = ''42'', percentOff = 20\<rparr>]\<rparr>] (map toLowerCase [''vip'']) = []
   \<and> findMatchedSegment [\<lparr>segId = ''gid://shopify/Segment/1'', segName = ''VIP''\<rparr>] [''vip'']
       = None"
  by (simp add: toLowerCase_def lowerChar_def exactTagMatch_def findManyIn_def
      findMatchedSegment_def)

section \<open>Offer Builder: failed metadata fetch\<close>

lemma keys_buildRuleMap_subset:
  "set (objectKeys (buildRuleMap rs)) \<subseteq> categoryId ` set rs"
  by (simp add: keys_buildRuleMap)

lemma value_buildRuleMap:
  assumes "collectionId \<in> set (objectKeys (buildRuleMap rs))"
  shows "map_of (buildRuleMap rs) collectionId
       = Some (Max (set (map percentOff (filter (\<lambda>r. categoryId r = collectionId) rs))))"
proof -
  have "set (map percentOff (filter (\<lambda>r. categoryId r = collectionId) rs))
      = percentOff ` {r \<in> set rs. categoryId r = collectionId}"
    by simp
  moreover from assms have "collectionId \<in> categoryId ` set rs"
    and "collectionId \<notin> set objectPrototypeNames"
    by (simp_all add: keys_buildRuleMap)
  ultimately show ?thesis
    by (simp only: map_of_buildRuleMap specResolve_max if_True if_False)
qed

lemma buildOffer_selected:
  assumes "selectPlan (findDiscountPlans table tags) = Some bestPlan"
  shows "buildOffer collectionsOf table tags =
     \<lparr>offerStatus = 200, offerSuccess = True,
      offerOf = Applicable (offerSegment bestPlan (map toLowerCase tags)) (planName bestPlan)
                  (collectionsOf (buildRuleMap (rules bestPlan)))
                  (snd (chooseBestPlan (findDiscountPlans table tags)))\<rparr>"
proof -
  from assms have "findDiscountPlans table tags \<noteq> []"
    by (auto simp: selectPlan_def chooseBestPlan_def)
  with assms show ?thesis
    by (simp add: buildOffer_def Let_def)
qed

lemma foldl_collectionMapStep_null:
  "list_all (\<lambda>n. n = None) nodes \<Longrightarrow> foldl collectionMapStep m nodes = m"
  by (induction nodes arbitrary: m) (simp_all add: collectionMapStep_def)

lemma getNode_empty:
  "getNode \<lparr>cmOwn = Map.empty, cmProto = None\<rparr> x = Member
   \<or> getNode \<lparr>cmOwn = Map.empty, cmProto = None\<rparr> x = NoValue"
  by (simp add: getNode_def prototypeMember_def)

lemma detailEntry_empty:
  "detailEntry ruleMap \<lparr>cmOwn = Map.empty, cmProto = None\<rparr> collectionId
     = fallbackEntry ruleMap collectionId"
  using getNode_empty[of "numericIdOf collectionId"] getNode_empty[of collectionId]
  by (auto simp: detailEntry_def fallbackEntry_def Let_def truthy_def)

lemma removeFirst_collectionPrefix:
  "removeFirst collectionPrefix (collectionPrefix @ y) = y"
  by (simp add: collectionPrefix_def startsWith_def)

lemma storeNode_missing:
  "storeMissing storeFetch k \<Longrightarrow>
     storeNode storeFetch k =
       \<lparr>nodeId = collectionPrefix @ numericIdOf k,
        nodeTitle = ''Collection '' @ numericIdOf k, nodeHandle = [],
        nodeProductsCount = None\<rparr>"
  by (simp add: storeMissing_def storeNode_def Let_def split: option.splits)

lemma nodeId_storeNode:
  "nodeId (storeNode storeFetch k) = collectionPrefix @ numericIdOf k"
  by (simp add: storeNode_def Let_def split: option.splits)

lemma collectionMapStep_storeNode:
  "collectionMapStep cm (Some (storeNode storeFetch k)) =
     setNode (setNode cm (numericIdOf k) (storeNode storeFetch k))
       (collectionPrefix @ numericIdOf k) (storeNode storeFetch k)"
proof -
  have "collectionPrefix \<noteq> []"
    by (simp add: collectionPrefix_def)
  then show ?thesis
    by (simp add: collectionMapStep_def nodeId_storeNode removeFirst_collectionPrefix)
qed

lemma getNode_NodeValue:
  "(getNode cm x = NodeValue m)
     = (if x = ''__proto__'' then cmProto cm = Some m else cmOwn cm x = Some m)"
proof (cases "x = ''__proto__''")
  case True
  then show ?thesis by (simp add: getNode_def split: option.splits)
next
  case False
  show ?thesis
  proof (cases "cmOwn cm x")
    case (Some n)
    with False show ?thesis by (simp add: getNode_def)
  next
    case None
    have "\<And>y. prototypeMember y \<noteq> NodeValue m" by (simp add: prototypeMember_def)
    with None False show ?thesis by (simp add: getNode_def split: option.splits)
  qed
qed

lemma getNode_setNode:
  "(getNode (setNode cm k n) x = NodeValue m)
     = (if x = k then m = n else getNode cm x = NodeValue m)"
  unfolding getNode_NodeValue by (cases "k = ''__proto__''") (auto simp: setNode_def)

lemma store_fold_inv:
  assumes "set ks \<subseteq> K"
    and "\<forall>x n. getNode cm x = NodeValue n \<longrightarrow>
           (\<exists>k\<in>K. n = storeNode storeFetch k
              \<and> (x = numericIdOf k \<or> x = collectionPrefix @ numericIdOf k))"
  shows "\<forall>x n. getNode (foldl collectionMapStep cm
                   (map (\<lambda>k. Some (storeNode storeFetch k)) ks)) x = NodeValue n \<longrightarrow>
           (\<exists>k\<in>K. n = storeNode storeFetch k
              \<and> (x = numericIdOf k \<or> x = collectionPrefix @ numericIdOf k))"
  using assms
proof (induction ks arbitrary: cm)
  case Nil
  then show ?case by simp
next
  case (Cons a ks)
  let ?cm = "collectionMapStep cm (Some (storeNode storeFetch a))"
  from Cons.prems have a: "a \<in> K" by simp
  have "\<forall>x n. getNode ?cm x = NodeValue n \<longrightarrow>
           (\<exists>k\<in>K. n = storeNode storeFetch k
              \<and> (x = numericIdOf k \<or> x = collectionPrefix @ numericIdOf k))"
    unfolding collectionMapStep_storeNode getNode_setNode
    using Cons.prems(2) a by (metis (no_types, lifting))
  moreover from Cons.prems have "set ks \<subseteq> K"
    by simp
  ultimately show ?case
    using Cons.IH[of ?cm] by simp
qed

lemma store_fold_cov:
  assumes "k \<in> set ks \<or> (\<exists>n. getNode cm (numericIdOf k) = NodeValue n)"
  shows "\<exists>n. getNode (foldl collectionMapStep cm
                 (map (\<lambda>k. Some (storeNode storeFetch k)) ks)) (numericIdOf k) = NodeValue n"
  using assms
proof (induction ks arbitrary: cm)
  case Nil
  then show ?case by simp
next
  case (Cons a ks)
  let ?cm = "collectionMapStep cm (Some (storeNode storeFetch a))"
  have step: "\<exists>n. getNode ?cm x = NodeValue n"
    if "x = numericIdOf a \<or> (\<exists>n. getNode cm x = NodeValue n)" for x
    unfolding collectionMapStep_storeNode getNode_setNode
    using that by auto
  from Cons.prems have "k = a \<or> k \<in> set ks \<or> (\<exists>n. getNode cm (numericIdOf k) = NodeValue n)"
    by auto
  then have "k \<in> set ks \<or> (\<exists>n. getNode ?cm (numericIdOf k) = NodeValue n)"
    using step[of "numericIdOf k"] by blast
  then show ?case
    using Cons.IH[of ?cm] by simp
qed

lemma detailEntry_fields:
  "colId (detailEntry ruleMap cm k) = numericIdOf k"
  "colPercentOff (detailEntry ruleMap cm k) = map_of ruleMap k"
  "colName (detailEntry ruleMap cm k) = colTitle (detailEntry ruleMap cm k)"
  by (simp_all add: detailEntry_def Let_def)

lemma fallbackEntry_fields:
  "colId (fallbackEntry ruleMap k) = numericIdOf k"
  "colPercentOff (fallbackEntry ruleMap k) = map_of ruleMap k"
  "colName (fallbackEntry ruleMap k) = colTitle (fallbackEntry ruleMap k)"
  "colTitle (fallbackEntry ruleMap k) = ''Collection '' @ numericIdOf k"
  "colHandle (fallbackEntry ruleMap k) = []"
  by (simp_all add: fallbackEntry_def)

lemma detailEntry_NodeValue:
  "getNode cm (numericIdOf k) = NodeValue n \<Longrightarrow>
     colTitle (detailEntry ruleMap cm k)
       = (if nodeTitle n = [] then ''Collection '' @ numericIdOf k else nodeTitle n)
     \<and> colHandle (detailEntry ruleMap cm k) = nodeHandle n"
  by (simp add: detailEntry_def Let_def truthy_def)

lemma store_entry:
  assumes k: "k \<in> set ks"
    and miss: "\<forall>other\<in>set ks. readBy other k \<longrightarrow> storeMissing storeFetch other"
  shows "\<exists>k'\<in>set ks.
     colTitle (detailEntry ruleMap
       (buildCollectionMap (map (\<lambda>k. Some (storeNode storeFetch k)) ks)) k)
       = ''Collection '' @ numericIdOf k'
     \<and> colHandle (detailEntry ruleMap
       (buildCollectionMap (map (\<lambda>k. Some (storeNode storeFetch k)) ks)) k) = []
     \<and> (numericIdOf k = numericIdOf k' \<or> numericIdOf k = collectionPrefix @ numericIdOf k')"
proof -
  let ?cm = "buildCollectionMap (map (\<lambda>k. Some (storeNode storeFetch k)) ks)"
  have empty: "\<forall>x n. getNode \<lparr>cmOwn = Map.empty, cmProto = None\<rparr> x = NodeValue n \<longrightarrow>
           (\<exists>k\<in>set ks. n = storeNode storeFetch k
              \<and> (x = numericIdOf k \<or> x = collectionPrefix @ numericIdOf k))"
    by (simp add: getNode_def prototypeMember_def)
  obtain n where n: "getNode ?cm (numericIdOf k) = NodeValue n"
    unfolding buildCollectionMap_def using store_fold_cov[OF disjI1[OF k]] by blast
  with store_fold_inv[OF subset_refl empty]
  obtain k' where k': "k' \<in> set ks" "n = storeNode storeFetch k'"
    "numericIdOf k = numericIdOf k' \<or> numericIdOf k = collectionPrefix @ numericIdOf k'"
    unfolding buildCollectionMap_def by blast
  from k'(3) have "readBy k' k" by (auto simp: readBy_def)
  with miss k'(1) have "storeMissing storeFetch k'" by simp
  then have "nodeTitle n = ''Collection '' @ numericIdOf k'" "nodeHandle n = []"
    unfolding k'(2) by (simp_all add: storeNode_missing)
  with detailEntry_NodeValue[OF n, of ruleMap] k'(1,3) show ?thesis
    by auto
qed

lemma collections_of_call:
  "offerCollections (offerOf (offerRoute table tags call)) = cs \<Longrightarrow>
   selectPlan (findDiscountPlans table tags) = Some bestPlan \<Longrightarrow>
     cs = (case call of
             Get reply \<Rightarrow> loaderCollections (buildRuleMap (rules bestPlan)) reply
           | Post admin storeUrl storeFetch \<Rightarrow>
               actionCollections (buildRuleMap (rules bestPlan)) admin storeUrl storeFetch)"
  using buildOffer_selected[of table tags bestPlan]
  by (auto simp: offerRoute_def offerLoader_def offerAction_def split: offer_call.splits)

lemma collections_entries:
  assumes "cs = (case call of
             Get reply \<Rightarrow> loaderCollections ruleMap reply
           | Post admin storeUrl storeFetch \<Rightarrow>
               actionCollections ruleMap admin storeUrl storeFetch)"
  shows "list_all2
     (\<lambda>k c. colId c = numericIdOf k \<and> colPercentOff c = map_of ruleMap k
        \<and> colName c = colTitle c
        \<and> (metadataUnavailable call (objectKeys ruleMap) k \<longrightarrow>
             colHandle c = []
             \<and> (\<exists>k'\<in>set (objectKeys ruleMap).
                   colTitle c = ''Collection '' @ numericIdOf k'
                   \<and> (numericIdOf k = numericIdOf k'
                      \<or> numericIdOf k = collectionPrefix @ numericIdOf k'))
             \<and> (\<not> usesStoreListing call \<longrightarrow> colTitle c = ''Collection '' @ numericIdOf k)))
     (objectKeys ruleMap) cs"
proof -
  let ?keys = "objectKeys ruleMap"
  let ?P = "\<lambda>k c. colId c = numericIdOf k \<and> colPercentOff c = map_of ruleMap k
        \<and> colName c = colTitle c
        \<and> (metadataUnavailable call ?keys k \<longrightarrow>
             colHandle c = []
             \<and> (\<exists>k'\<in>set ?keys.
                   colTitle c = ''Collection '' @ numericIdOf k'
                   \<and> (numericIdOf k = numericIdOf k'
                      \<or> numericIdOf k = collectionPrefix @ numericIdOf k'))
             \<and> (\<not> usesStoreListing call \<longrightarrow> colTitle c = ''Collection '' @ numericIdOf k))"
  have fb: "list_all2 ?P ?keys (fallbackCollections ruleMap)"
    unfolding fallbackCollections_def list_all2_map2
    by (rule list.rel_refl_strong) (auto simp: fallbackEntry_fields)
  have detail: "list_all2 ?P ?keys (detailCollections ruleMap nodes)"
    if "metadataUnavailable call ?keys = (\<lambda>k. metadataMissing (Nodes nodes))" for nodes
  proof (cases "metadataMissing (Nodes nodes)")
    case True
    then have "detailCollections ruleMap nodes = fallbackCollections ruleMap"
      by (simp add: metadataMissing_def detailCollections_def buildCollectionMap_def
          foldl_collectionMapStep_null detailEntry_empty fallbackCollections_def)
    with fb show ?thesis by simp
  next
    case False
    with that show ?thesis
      unfolding detailCollections_def list_all2_map2
      by (intro list.rel_refl_strong) (simp add: detailEntry_fields)
  qed
  show ?thesis
  proof (cases call)
    case (Get reply)
    show ?thesis
    proof (cases reply)
      case FetchFails
      with Get assms fb show ?thesis by (simp add: loaderCollections_def)
    next
      case (Nodes nodes)
      have "metadataUnavailable call ?keys = (\<lambda>k. metadataMissing (Nodes nodes))"
        by (simp add: metadataUnavailable_def Get Nodes fun_eq_iff)
      from detail[OF this] Get Nodes assms show ?thesis by (simp add: loaderCollections_def)
    qed
  next
    case (Post admin storeUrl storeFetch)
    show ?thesis
    proof (cases admin)
      case (Admin reply)
      show ?thesis
      proof (cases reply)
        case FetchFails
        with Post Admin assms fb show ?thesis by (simp add: actionCollections_def)
      next
        case (Nodes nodes)
        have "metadataUnavailable call ?keys = (\<lambda>k. metadataMissing (Nodes nodes))"
          by (simp add: metadataUnavailable_def Post Admin Nodes fun_eq_iff)
        from detail[OF this] Post Admin Nodes assms show ?thesis
          by (simp add: actionCollections_def)
      qed
    next
      case NoAdmin
      show ?thesis
      proof (cases "storeUrl = []")
        case True
        with Post NoAdmin assms fb show ?thesis by (simp add: actionCollections_def)
      next
        case False
        let ?cm = "buildCollectionMap (map (\<lambda>k. Some (storeNode storeFetch k)) ?keys)"
        have cs: "cs = map (detailEntry ruleMap ?cm) ?keys"
          using Post NoAdmin False assms
          by (simp add: actionCollections_def detailCollections_def)
        have un: "metadataUnavailable call ?keys k
            \<longleftrightarrow> (\<forall>other\<in>set ?keys. readBy other k \<longrightarrow> storeMissing storeFetch other)" for k
          using False by (simp add: metadataUnavailable_def Post NoAdmin list_all_iff)
        have us: "usesStoreListing call"
          using False by (simp add: usesStoreListing_def Post NoAdmin)
        show ?thesis
          unfolding cs list_all2_map2
        proof (rule list.rel_refl_strong)
          fix k assume k: "k \<in> set ?keys"
          have "colHandle (detailEntry ruleMap ?cm k) = []
             \<and> (\<exists>k'\<in>set ?keys.
                   colTitle (detailEntry ruleMap ?cm k) = ''Collection '' @ numericIdOf k'
                   \<and> (numericIdOf k = numericIdOf k'
                      \<or> numericIdOf k = collectionPrefix @ numericIdOf k'))"
            if "metadataUnavailable call ?keys k"
            using store_entry[OF k, of storeFetch ruleMap] that un[of k] by blast
          with us show "?P k (detailEntry ruleMap ?cm k)"
            by (simp add: detailEntry_fields)
        qed
      qed
    qed
  qed
qed

text \<open>
  Claim C6 (graceful degradation), as amended.  When a plan is selected, both the GET and
  the POST form of the offer route answer with status 200 and \<open>discountApplicable: true\<close>,
  whatever becomes of the metadata fetch.  The offer has one entry for every key of the
  rule map, in the order of the keys: its identifier is the key stripped of the
  \<open>gid://shopify/Collection/\<close> prefix and its \<open>percentOff\<close> is the greatest \<open>percentOff\<close> of
  the plan's rules with that \<open>categoryId\<close>.  When the metadata of the collection is
  unavailable (the admin fetch fails or resolves nothing, or, without admin access, there
  is no store URL or the public listing gives nothing for it), the handle is empty and
  the title and name are a placeholder \<open>Collection <id>\<close> built from the stripped
  identifier of a rule of the plan (not an empty title): that of the entry itself
  whenever the public listing is not used or the identifier does not begin with the
  prefix again.  Every rule whose \<open>categoryId\<close> is not the name of an inherited member has
  its key in the rule map.
\<close>

theorem offer_metadata_failure_fallback:
  assumes "selectPlan (findDiscountPlans table tags) = Some bestPlan"
  shows "offerStatus (offerRoute table tags call) = 200
       \<and> offerSuccess (offerRoute table tags call)
       \<and> discountApplicable (offerOf (offerRoute table tags call))
       \<and> offerPlanName (offerOf (offerRoute table tags call)) = planName bestPlan
       \<and> list_all2
           (\<lambda>collectionId c.
              colId c = numericIdOf collectionId
              \<and> colPercentOff c =
                  Some (Max (set (map percentOff
                    (filter (\<lambda>ru. categoryId ru = collectionId) (rules bestPlan)))))
              \<and> colName c = colTitle c
              \<and> (metadataUnavailable call (objectKeys (buildRuleMap (rules bestPlan)))
                    collectionId \<longrightarrow>
                   colHandle c = []
                   \<and> (\<exists>ru\<in>set (rules bestPlan).
                         colTitle c = ''Collection '' @ numericIdOf (categoryId ru))
                   \<and> (\<not> usesStoreListing call \<or> \<not> startsWith (colId c) collectionPrefix \<longrightarrow>
                         colTitle c = ''Collection '' @ colId c)))
           (objectKeys (buildRuleMap (rules bestPlan)))
           (offerCollections (offerOf (offerRoute table tags call)))
       \<and> (\<forall>ru\<in>set (rules bestPlan).
             categoryId ru \<notin> set objectPrototypeNames \<longrightarrow>
             categoryId ru \<in> set (objectKeys (buildRuleMap (rules bestPlan))))
       \<and> set (objectKeys (buildRuleMap (rules bestPlan))) \<subseteq> categoryId ` set (rules bestPlan)
       \<and> distinct (objectKeys (buildRuleMap (rules bestPlan)))"
proof -
  let ?rm = "buildRuleMap (rules bestPlan)"
  let ?keys = "objectKeys ?rm"
  let ?r = "offerRoute table tags call"
  define cs where "cs = offerCollections (offerOf ?r)"
  have shape: "offerStatus ?r = 200 \<and> offerSuccess ?r \<and> discountApplicable (offerOf ?r)
       \<and> offerPlanName (offerOf ?r) = planName bestPlan"
    using buildOffer_selected[OF assms]
    by (cases call)
      (simp_all add: offerRoute_def offerLoader_def offerAction_def discountApplicable_def)
  have src: "cs = (case call of
             Get reply \<Rightarrow> loaderCollections ?rm reply
           | Post admin storeUrl storeFetch \<Rightarrow>
               actionCollections ?rm admin storeUrl storeFetch)"
    using collections_of_call[OF cs_def[symmetric] assms] .
  have entries: "list_all2
           (\<lambda>collectionId c.
              colId c = numericIdOf collectionId
              \<and> colPercentOff c =
                  Some (Max (set (map percentOff
                    (filter (\<lambda>ru. categoryId ru = collectionId) (rules bestPlan)))))
              \<and> colName c = colTitle c
              \<and> (metadataUnavailable call ?keys collectionId \<longrightarrow>
                   colHandle c = []
                   \<and> (\<exists>ru\<in>set (rules bestPlan).
                         colTitle c = ''Collection '' @ numericIdOf (categoryId ru))
                   \<and> (\<not> usesStoreListing call \<or> \<not> startsWith (colId c) collectionPrefix \<longrightarrow>
                         colTitle c = ''Collection '' @ colId c)))
           ?keys cs"
  proof (rule list.rel_mono_strong[OF collections_entries[OF src]], intro conjI impI)
    fix k c
    assume k: "k \<in> set ?keys"
      and P: "colId c = numericIdOf k \<and> colPercentOff c = map_of ?rm k
        \<and> colName c = colTitle c
        \<and> (metadataUnavailable call ?keys k \<longrightarrow>
             colHandle c = []
             \<and> (\<exists>k'\<in>set ?keys.
                   colTitle c = ''Collection '' @ numericIdOf k'
                   \<and> (numericIdOf k = numericIdOf k'
                      \<or> numericIdOf k = collectionPrefix @ numericIdOf k'))
             \<and> (\<not> usesStoreListing call \<longrightarrow> colTitle c = ''Collection '' @ numericIdOf k))"
    show "colId c = numericIdOf k" using P by simp
    show "colPercentOff c =
        Some (Max (set (map percentOff (filter (\<lambda>ru. categoryId ru = k) (rules bestPlan)))))"
      using P value_buildRuleMap[OF k] by simp
    show "colName c = colTitle c" using P by simp
    assume un: "metadataUnavailable call ?keys k"
    with P obtain k' where k': "k' \<in> set ?keys"
      "colTitle c = ''Collection '' @ numericIdOf k'"
      "numericIdOf k = numericIdOf k' \<or> numericIdOf k = collectionPrefix @ numericIdOf k'"
      by blast
    show "colHandle c = []" using P un by simp
    from k'(1) keys_buildRuleMap_subset[of "rules bestPlan"]
    obtain ru where "ru \<in> set (rules bestPlan)" "categoryId ru = k'" by auto
    with k'(2) show "\<exists>ru\<in>set (rules bestPlan).
        colTitle c = ''Collection '' @ numericIdOf (categoryId ru)"
      by auto
    show "colTitle c = ''Collection '' @ colId c"
      if "\<not> usesStoreListing call \<or> \<not> startsWith (colId c) collectionPrefix"
    proof (cases "usesStoreListing call")
      case False
      with P un show ?thesis by simp
    next
      case True
      with that P have "numericIdOf k \<noteq> collectionPrefix @ numericIdOf k'"
        using startsWith_append[of collectionPrefix "numericIdOf k'"] by auto
      with k'(3) have "numericIdOf k = numericIdOf k'" by simp
      with k'(2) P show ?thesis by simp
    qed
  qed
  have covered: "\<forall>ru\<in>set (rules bestPlan).
             categoryId ru \<notin> set objectPrototypeNames \<longrightarrow> categoryId ru \<in> set ?keys"
    by (simp add: keys_buildRuleMap)
  from shape entries covered keys_buildRuleMap_subset[of "rules bestPlan"]
    distinct_keys_buildRuleMap[of "rules bestPlan"]
  show ?thesis unfolding cs_def by blast
qed

theorem offer_metadata_failure_fallback_witness:
  "selectPlan (findDiscountPlans
       [\<lparr>planName = ''Gold plan'', targetType = ''segment'', targetKey = ''gold'',
          rules = [\<lparr>categoryId = ''gid://shopify/Collection/42'', percentOff = 10\<rparr>,
                   \<lparr>categoryId = ''gid://shopify/Collection/42'', percentOff = 20\<rparr>]\<rparr>] [''Gold''])
     = Some \<lparr>planName = ''Gold plan'', targetType = ''segment'', targetKey = ''gold'',
          rules = [\<lparr>categoryId = ''gid://shopify/Collection/42'', percentOff = 10\<rparr>,
                   \<lparr>categoryId = ''gid://shopify/Collection/42'', percentOff = 20\<rparr>]\<rparr>
   \<and> metadataUnavailable (Post NoAdmin ''https://shop.example'' (\<lambda>collectionId. None))
       (objectKeys (buildRuleMap
          [\<lparr>categoryId = ''gid://shopify/Collection/42'', percentOff = 10\<rparr>,
           \<lparr>categoryId = ''gid://shopify/Collection/42'', percentOff = 20\<rparr>]))
       ''gid://shopify/Collection/42''
   \<and> discountApplicable (offerOf (offerAction
       [\<lparr>planName = ''Gold plan'', targetType = ''segment'', targetKey = ''gold'',
          rules = [\<lparr>categoryId = ''gid://shopify/Collection/42'', percentOff = 10\<rparr>,
                   \<lparr>categoryId = ''gid://shopify/Collection/42'', percentOff = 20\<rparr>]\<rparr>] [''Gold'']
       NoAdmin ''https://shop.example'' (\<lambda>collectionId. None)))
   \<and> (\<exists>c. offerCollections (offerOf (offerAction
       [\<lparr>planName = ''Gold plan'', targetType = ''segment'', targetKey = ''gold'',
          rules = [\<lparr>categoryId = ''gid://shopify/Collection/42'', percentOff = 10\<rparr>,
                   \<lparr>categoryId = ''gid://shopify/Collection/42'', percentOff = 20\<rparr>]\<rparr>] [''Gold'']
       NoAdmin ''https://shop.example'' (\<lambda>collectionId. None))) = [c]
     \<and> colId c = ''42'' \<and> colPercentOff c = Some 20 \<and> colHandle c = []
     \<and> colTitle c = ''Collection 42'' \<and> colName c = ''Collection 42'')"
proof -
  let ?rs = "[\<lparr>categoryId = ''gid://shopify/Collection/42'', percentOff = 10\<rparr>,
              \<lparr>categoryId = ''gid://shopify/Collection/42'', percentOff = 20\<rparr>]"
  let ?p = "\<lparr>planName = ''Gold plan'', targetType = ''segment'', targetKey = ''gold'',
          rules = ?rs\<rparr>"
  let ?call = "Post NoAdmin ''https://shop.example'' (\<lambda>collectionId. None)"
  let ?r = "offerAction [?p] [''Gold''] NoAdmin ''https://shop.example'' (\<lambda>collectionId. None)"
  have route: "offerRoute [?p] [''Gold''] ?call = ?r"
    by (simp add: offerRoute_def)
  have fd: "findDiscountPlans [?p] [''Gold''] = [?p]"
    by (simp add: findDiscountPlans_def exactTagMatch_def findManyIn_def toLowerCase_def
        lowerChar_def)
  have sel: "selectPlan (findDiscountPlans [?p] [''Gold'']) = Some ?p"
    unfolding fd by (simp add: selectPlan_def chooseBestPlan_def planMax_def)
  have keys: "objectKeys (buildRuleMap ?rs) = [''gid://shopify/Collection/42'']"
    by (simp add: objectKeys_def buildRuleMap_def ruleStep_def getRule_def
        objectPrototypeNames_def isArrayIndex_def isDigit_def)
  have un: "metadataUnavailable ?call (objectKeys (buildRuleMap ?rs))
       ''gid://shopify/Collection/42''"
    unfolding keys by (simp add: metadataUnavailable_def storeMissing_def)
  have num: "numericIdOf ''gid://shopify/Collection/42'' = ''42''"
    by (simp add: numericIdOf_def startsWith_def collectionPrefix_def)
  have nopre: "\<not> startsWith ''42'' collectionPrefix"
    by (simp add: startsWith_def collectionPrefix_def)
  note inst = offer_metadata_failure_fallback[OF sel, of ?call, unfolded route]
  have app: "discountApplicable (offerOf ?r)"
    using inst[THEN conjunct2, THEN conjunct2, THEN conjunct1] .
  have "list_all2
           (\<lambda>collectionId c.
              colId c = numericIdOf collectionId
              \<and> colPercentOff c =
                  Some (Max (set (map percentOff
                    (filter (\<lambda>ru. categoryId ru = collectionId) ?rs))))
              \<and> colName c = colTitle c
              \<and> (metadataUnavailable ?call [''gid://shopify/Collection/42''] collectionId \<longrightarrow>
                   colHandle c = []
                   \<and> (\<exists>ru\<in>set ?rs.
                         colTitle c = ''Collection '' @ numericIdOf (categoryId ru))
                   \<and> (\<not> usesStoreListing ?call \<or> \<not> startsWith (colId c) collectionPrefix \<longrightarrow>
                         colTitle c = ''Collection '' @ colId c)))
           [''gid://shopify/Collection/42''] (offerCollections (offerOf ?r))"
    using inst[THEN conjunct2, THEN conjunct2, THEN conjunct2, THEN conjunct2, THEN conjunct1]
    by (simp add: keys)
  then obtain c where c: "offerCollections (offerOf ?r) = [c]"
    "colId c = ''42''" "colPercentOff c = Some 20" "colName c = colTitle c"
    "metadataUnavailable ?call [''gid://shopify/Collection/42''] ''gid://shopify/Collection/42''
       \<longrightarrow> colHandle c = []
         \<and> (\<not> usesStoreListing ?call \<or> \<not> startsWith (colId c) collectionPrefix \<longrightarrow>
               colTitle c = ''Collection '' @ colId c)"
    by (auto simp: list_all2_Cons1 num)
  from c(5) un[unfolded keys] have h: "colHandle c = []"
    and t: "\<not> startsWith (colId c) collectionPrefix \<longrightarrow> colTitle c = ''Collection '' @ colId c"
    by blast+
  from c(2,4) t nopre have "colTitle c = ''Collection 42''" "colName c = ''Collection 42''"
    by simp_all
  with c(1-3) h have "\<exists>c. offerCollections (offerOf ?r) = [c]
     \<and> colId c = ''42'' \<and> colPercentOff c = Some 20 \<and> colHandle c = []
     \<and> colTitle c = ''Collection 42'' \<and> colName c = ''Collection 42''"
    by blast
  with sel un app show ?thesis by (intro conjI)
qed

theorem offer_metadata_failure_title_counterexample:
  "map colTitle (offerCollections (offerOf (offerLoader
       [\<lparr>planName = ''Gold plan'', targetType = ''segment'', targetKey = ''gold'',
          rules = [\<lparr>categoryId = ''gid://shopify/Collection/42'', percentOff = 20\<rparr>]\<rparr>] [''gold'']
       FetchFails)))
     = [''Collection 42'']
   \<and> map colTitle (offerCollections (offerOf (offerAction
       [\<lparr>planName = ''Gold plan'', targetType = ''segment'', targetKey = ''gold'',
          rules = [\<lparr>categoryId = ''gid://shopify/Collection/42'', percentOff = 20\<rparr>]\<rparr>] [''gold'']
       (Admin FetchFails) [] (\<lambda>collectionId. None))))
     = [''Collection 42'']"
  by (simp add: offerLoader_def offerAction_def buildOffer_def findDiscountPlans_def
      exactTagMatch_def findManyIn_def toLowerCase_def lowerChar_def selectPlan_def
      chooseBestPlan_def planMax_def loaderCollections_def actionCollections_def
      fallbackCollections_def fallbackEntry_def objectKeys_def buildRuleMap_def ruleStep_def
      getRule_def objectPrototypeNames_def
      numericIdOf_def startsWith_def collectionPrefix_def isArrayIndex_def isDigit_def)

section \<open>Discount Calculator: the two loops\<close>

lemma checkRule_checks:
  "checks (checkRule e n0 sh tok pid st r) = checks st @ [MembershipCheck pid (categoryId r)]"
  by (simp add: checkRule_def Let_def)

lemma checkRule_pass:
  "checkProductInCollection e (n0 + length (checks st)) sh tok pid (categoryId r)
     \<and> bestPercentOff st < percentOff r \<Longrightarrow>
     bestDiscount (checkRule e n0 sh tok pid st r) = Some r
     \<and> bestPercentOff (checkRule e n0 sh tok pid st r) = percentOff r"
  by (simp add: checkRule_def Let_def)

lemma checkRule_skip:
  "\<not> (checkProductInCollection e (n0 + length (checks st)) sh tok pid (categoryId r)
       \<and> bestPercentOff st < percentOff r) \<Longrightarrow>
     bestDiscount (checkRule e n0 sh tok pid st r) = bestDiscount st
     \<and> bestPercentOff (checkRule e n0 sh tok pid st r) = bestPercentOff st"
  by (simp add: checkRule_def Let_def)

lemma checkRule_length:
  "length (checks (checkRule e n0 sh tok pid st r)) = Suc (length (checks st))"
  by (simp add: checkRule_checks)

lemma foldl_checkRule_checks:
  "checks (foldl (checkRule e n0 sh tok pid) st rs)
     = checks st @ map (\<lambda>r. MembershipCheck pid (categoryId r)) rs"
  by (induction rs arbitrary: st) (simp_all add: checkRule_checks)

lemma checkRule_mono:
  "bestPercentOff st \<le> bestPercentOff (checkRule e n0 sh tok pid st r)"
  using checkRule_pass[of e n0 st sh tok pid r] checkRule_skip[of e n0 st sh tok pid r]
  by (cases "checkProductInCollection e (n0 + length (checks st)) sh tok pid (categoryId r)
               \<and> bestPercentOff st < percentOff r") simp_all

lemma foldl_checkRule_mono:
  "bestPercentOff st \<le> bestPercentOff (foldl (checkRule e n0 sh tok pid) st rs)"
proof (induction rs arbitrary: st)
  case Nil
  show ?case by simp
next
  case (Cons r rs)
  have "bestPercentOff st \<le> bestPercentOff (checkRule e n0 sh tok pid st r)"
    by (rule checkRule_mono)
  also have "\<dots> \<le> bestPercentOff
      (foldl (checkRule e n0 sh tok pid) (checkRule e n0 sh tok pid st r) rs)"
    by (rule Cons.IH)
  finally show ?case by simp
qed

lemma foldl_checkRule_upper:
  "j < length rs \<Longrightarrow>
   checkProductInCollection e (n0 + length (checks st) + j) sh tok pid (categoryId (rs ! j)) \<Longrightarrow>
     percentOff (rs ! j) \<le> bestPercentOff (foldl (checkRule e n0 sh tok pid) st rs)"
proof (induction rs arbitrary: st j)
  case Nil
  then show ?case by simp
next
  case (Cons a rs)
  show ?case
  proof (cases j)
    case 0
    have "percentOff a \<le> bestPercentOff (checkRule e n0 sh tok pid st a)"
      using checkRule_pass[of e n0 st sh tok pid a] checkRule_skip[of e n0 st sh tok pid a]
        Cons.prems(2) 0
      by (cases "bestPercentOff st < percentOff a") simp_all
    also have "\<dots> \<le> bestPercentOff
        (foldl (checkRule e n0 sh tok pid) (checkRule e n0 sh tok pid st a) rs)"
      by (rule foldl_checkRule_mono)
    finally show ?thesis using 0 by simp
  next
    case (Suc i)
    with Cons.prems have "i < length rs"
      and "checkProductInCollection e
             (n0 + length (checks (checkRule e n0 sh tok pid st a)) + i) sh tok pid
             (categoryId (rs ! i))"
      by (simp_all add: checkRule_length)
    from Cons.IH[OF this] Suc show ?thesis by simp
  qed
qed

lemma foldl_checkRule_inv:
  assumes "bestDiscount (foldl (checkRule e n0 sh tok pid) s xs) = Some r"
    and "case bestDiscount s of
           None \<Rightarrow> bestPercentOff s = 0
         | Some b \<Rightarrow> Q b \<and> percentOff b = bestPercentOff s \<and> 0 < percentOff b"
    and "\<forall>j<length xs.
           checkProductInCollection e (n0 + length (checks s) + j) sh tok pid
             (categoryId (xs ! j)) \<longrightarrow> Q (xs ! j)"
  shows "Q r \<and> percentOff r = bestPercentOff (foldl (checkRule e n0 sh tok pid) s xs)
       \<and> 0 < percentOff r"
  using assms
proof (induction xs arbitrary: s)
  case Nil
  then show ?case by simp
next
  case (Cons a xs)
  let ?s' = "checkRule e n0 sh tok pid s a"
  have pos: "0 \<le> bestPercentOff s"
    using Cons.prems(2) by (cases "bestDiscount s") auto
  have inv: "case bestDiscount ?s' of
       None \<Rightarrow> bestPercentOff ?s' = 0
     | Some b \<Rightarrow> Q b \<and> percentOff b = bestPercentOff ?s' \<and> 0 < percentOff b"
  proof (cases "checkProductInCollection e (n0 + length (checks s)) sh tok pid (categoryId a)
             \<and> bestPercentOff s < percentOff a")
    case True
    from Cons.prems(3) True have "Q a" by force
    with checkRule_pass[OF True] pos True show ?thesis by simp
  next
    case False
    from checkRule_skip[OF False] Cons.prems(2) show ?thesis
      by (cases "bestDiscount s") simp_all
  qed
  have rest: "\<forall>j<length xs.
           checkProductInCollection e (n0 + length (checks ?s') + j) sh tok pid
             (categoryId (xs ! j)) \<longrightarrow> Q (xs ! j)"
  proof (intro allI impI)
    fix j
    assume "j < length xs"
      and "checkProductInCollection e (n0 + length (checks ?s') + j) sh tok pid
             (categoryId (xs ! j))"
    then have "Suc j < length (a # xs)"
      and "checkProductInCollection e (n0 + length (checks s) + Suc j) sh tok pid
             (categoryId ((a # xs) ! Suc j))"
      by (simp_all add: checkRule_length)
    with Cons.prems(3) have "Q ((a # xs) ! Suc j)" by blast
    then show "Q (xs ! j)" by simp
  qed
  from Cons.prems(1) have "bestDiscount (foldl (checkRule e n0 sh tok pid) ?s' xs) = Some r"
    by simp
  from Cons.IH[OF this inv rest] show ?case by simp
qed

lemma foldl_checkRule_stays:
  "bestDiscount st \<noteq> None \<Longrightarrow> bestDiscount (foldl (checkRule e n0 sh tok pid) st rs) \<noteq> None"
proof (induction rs arbitrary: st)
  case Nil
  then show ?case by simp
next
  case (Cons a rs)
  have "bestDiscount (checkRule e n0 sh tok pid st a) \<noteq> None"
    using Cons.prems by (simp add: checkRule_def Let_def)
  from Cons.IH[OF this] show ?case by simp
qed

lemma foldl_checkRule_None:
  "bestPercentOff st = 0 \<Longrightarrow>
   bestDiscount (foldl (checkRule e n0 sh tok pid) st rs) = None \<longleftrightarrow>
     bestDiscount st = None
     \<and> \<not> ruleQualifies e (n0 + length (checks st)) sh tok pid rs"
proof (induction rs arbitrary: st)
  case Nil
  show ?case by simp
next
  case (Cons a rs)
  let ?s' = "checkRule e n0 sh tok pid st a"
  show ?case
  proof (cases "checkProductInCollection e (n0 + length (checks st)) sh tok pid (categoryId a)
               \<and> bestPercentOff st < percentOff a")
    case True
    with checkRule_pass[OF True] have "bestDiscount ?s' \<noteq> None" by simp
    then have "bestDiscount (foldl (checkRule e n0 sh tok pid) ?s' rs) \<noteq> None"
      by (rule foldl_checkRule_stays)
    with True Cons.prems show ?thesis by simp
  next
    case False
    from checkRule_skip[OF False] Cons.prems have "bestPercentOff ?s' = 0" by simp
    from Cons.IH[OF this] checkRule_skip[OF False] False Cons.prems
    show ?thesis by (simp add: checkRule_length)
  qed
qed

lemma findBestDiscount_None:
  "bestDiscount (findBestDiscount e n0 sh tok (productId item) rs) = None
     \<longleftrightarrow> \<not> lineQualifies e n0 sh tok rs item"
  by (simp add: findBestDiscount_def foldl_checkRule_None lineQualifies_def)

lemma findBestDiscount_Some:
  assumes "bestDiscount (findBestDiscount e n0 sh tok pid rs) = Some r"
  shows "(\<exists>j<length rs. rs ! j = r
            \<and> checkProductInCollection e (n0 + j) sh tok pid (categoryId (rs ! j)))
     \<and> percentOff r = bestPercentOff (findBestDiscount e n0 sh tok pid rs)
     \<and> 0 < percentOff r"
  using assms unfolding findBestDiscount_def
  by (rule foldl_checkRule_inv) auto

lemma findBestDiscount_upper:
  "j < length rs \<Longrightarrow>
   checkProductInCollection e (n0 + j) sh tok pid (categoryId (rs ! j)) \<Longrightarrow>
     percentOff (rs ! j) \<le> bestPercentOff (findBestDiscount e n0 sh tok pid rs)"
  unfolding findBestDiscount_def by (rule foldl_checkRule_upper) simp_all

lemma findBestDiscount_checks:
  "checks (findBestDiscount e n0 sh tok pid rs)
     = map (\<lambda>r. MembershipCheck pid (categoryId r)) rs"
  by (simp add: findBestDiscount_def foldl_checkRule_checks)

lemma lineEntry_None:
  "lineEntry e n0 sh tok rs item = None \<longleftrightarrow> \<not> lineQualifies e n0 sh tok rs item"
  by (simp add: lineEntry_def findBestDiscount_None[symmetric] split: option.split)

lemma priceItem_entry:
  "priceItem e sh tok rs st item =
     (case lineEntry e (length (c_calls st)) sh tok rs item of
        None \<Rightarrow>
          st\<lparr>c_totalOriginal := c_totalOriginal st + itemTotal item,
             c_calls := c_calls st
               @ map (\<lambda>r. MembershipCheck (productId item) (categoryId r)) rs\<rparr>
      | Some d \<Rightarrow>
          st\<lparr>c_totalOriginal := c_totalOriginal st + itemTotal item,
             c_calls := c_calls st
               @ map (\<lambda>r. MembershipCheck (productId item) (categoryId r)) rs,
             c_totalDiscount := c_totalDiscount st + d_discountAmount d,
             c_applicable := c_applicable st @ [d]\<rparr>)"
  by (simp add: priceItem_def lineEntry_def Let_def findBestDiscount_checks
      split: option.split)

lemma priceItem_calls:
  "c_calls (priceItem e sh tok rs st item)
     = c_calls st @ map (\<lambda>r. MembershipCheck (productId item) (categoryId r)) rs"
  by (simp add: priceItem_entry split: option.split)

lemma foldl_priceItem_original:
  "c_totalOriginal (foldl (priceItem e sh tok rs) st items)
     = c_totalOriginal st + sum_list (map itemTotal items)"
  by (induction items arbitrary: st) (simp_all add: priceItem_entry split: option.split)

lemma foldl_priceItem_applicable:
  "c_applicable (foldl (priceItem e sh tok rs) st items)
     = c_applicable st @ cartEntries e (length (c_calls st)) sh tok rs items"
proof (induction items arbitrary: st)
  case Nil
  show ?case by simp
next
  case (Cons item items)
  have "c_applicable (priceItem e sh tok rs st item)
      = c_applicable st
        @ (case lineEntry e (length (c_calls st)) sh tok rs item of
             None \<Rightarrow> [] | Some d \<Rightarrow> [d])"
    by (simp add: priceItem_entry split: option.split)
  moreover have "length (c_calls (priceItem e sh tok rs st item))
      = length (c_calls st) + length rs"
    by (simp add: priceItem_calls)
  ultimately show ?case
    using Cons.IH[of "priceItem e sh tok rs st item"] by simp
qed

lemma foldl_priceItem_discount:
  "c_totalDiscount (foldl (priceItem e sh tok rs) st items)
     = c_totalDiscount st
       + sum_list (map d_discountAmount (cartEntries e (length (c_calls st)) sh tok rs items))"
proof (induction items arbitrary: st)
  case Nil
  show ?case by simp
next
  case (Cons item items)
  have "c_totalDiscount (priceItem e sh tok rs st item)
      = c_totalDiscount st
        + sum_list (map d_discountAmount
            (case lineEntry e (length (c_calls st)) sh tok rs item of
               None \<Rightarrow> [] | Some d \<Rightarrow> [d]))"
    by (simp add: priceItem_entry split: option.split)
  moreover have "length (c_calls (priceItem e sh tok rs st item))
      = length (c_calls st) + length rs"
    by (simp add: priceItem_calls)
  ultimately show ?case
    using Cons.IH[of "priceItem e sh tok rs st item"] by simp
qed

lemma foldl_priceItem_calls:
  "c_calls (foldl (priceItem e sh tok rs) st items)
     = c_calls st
       @ concat (map (\<lambda>item. map (\<lambda>r. MembershipCheck (productId item) (categoryId r)) rs) items)"
  by (induction items arbitrary: st) (simp_all add: priceItem_calls)

lemma priceCart_original:
  "c_totalOriginal (priceCart e sh tok rs items) = sum_list (map itemTotal items)"
  by (simp add: priceCart_def foldl_priceItem_original)

lemma priceCart_applicable:
  "c_applicable (priceCart e sh tok rs items) = cartEntries e 0 sh tok rs items"
  by (simp add: priceCart_def foldl_priceItem_applicable)

lemma priceCart_discount:
  "c_totalDiscount (priceCart e sh tok rs items)
     = sum_list (map d_discountAmount (cartEntries e 0 sh tok rs items))"
  by (simp add: priceCart_def foldl_priceItem_discount)

lemma priceCart_calls:
  "c_calls (priceCart e sh tok rs items)
     = concat (map (\<lambda>item. map (\<lambda>r. MembershipCheck (productId item) (categoryId r)) rs) items)"
  by (simp add: priceCart_def foldl_priceItem_calls)

lemma cartEntries_Nil_iff:
  "cartEntries e n sh tok rs items = [] \<longleftrightarrow> \<not> cartQualifies e n sh tok rs items"
  by (induction items arbitrary: n)
     (simp_all add: lineEntry_None[symmetric] split: option.split)

lemma priceCart_applicable_Nil:
  "c_applicable (priceCart e sh tok rs items) = []
     \<longleftrightarrow> \<not> cartQualifies e 0 sh tok rs items"
  by (simp add: priceCart_applicable cartEntries_Nil_iff)

lemma no_draft_in_checks:
  "\<not> list_ex isDraftOrderCreate (c_calls (priceCart e sh tok rs items))"
  by (auto simp: priceCart_calls list_ex_iff isDraftOrderCreate_def)

section \<open>Order Builder: when the draft order is created\<close>

lemma snd_createDraftOrder:
  "snd (createDraftOrder e sh tok cid items ads)
     = (case formatCustomerId cid of
          None \<Rightarrow> []
        | Some formattedCustomerId \<Rightarrow>
            [DraftOrderCreate formattedCustomerId (map (draftLineItem ads) items)])"
  by (simp add: createDraftOrder_def Let_def split: option.split)

lemma snd_finish:
  "snd (finish e ctx st) =
     (if c_applicable st \<noteq> []
      then c_calls st
           @ (case formatCustomerId (rs_customerId ctx) of
                None \<Rightarrow> []
              | Some formattedCustomerId \<Rightarrow>
                  [DraftOrderCreate formattedCustomerId
                     (map (draftLineItem (c_applicable st)) (rs_items ctx))])
      else c_calls st)"
proof (cases "c_applicable st = []")
  case True
  then show ?thesis by (simp add: finish_def)
next
  case False
  obtain res sinkCalls where cd:
    "createDraftOrder e (rs_shop ctx) (rs_token ctx) (rs_customerId ctx) (rs_items ctx)
       (c_applicable st) = (res, sinkCalls)"
    by (cases "createDraftOrder e (rs_shop ctx) (rs_token ctx) (rs_customerId ctx)
                 (rs_items ctx) (c_applicable st)")
  then have "sinkCalls = (case formatCustomerId (rs_customerId ctx) of
                None \<Rightarrow> []
              | Some formattedCustomerId \<Rightarrow>
                  [DraftOrderCreate formattedCustomerId
                     (map (draftLineItem (c_applicable st)) (rs_items ctx))])"
    using snd_createDraftOrder[of e "rs_shop ctx" "rs_token ctx" "rs_customerId ctx"
        "rs_items ctx" "c_applicable st"] by simp
  with False cd show ?thesis
    by (cases res) (simp_all add: finish_def)
qed

lemma resolveCustomer_formatted:
  assumes "resolveCustomer e sh tok cid items = Inr ctx"
  shows "rs_customerId ctx = cid \<and> formatCustomerId cid \<noteq> None"
proof -
  from assms have "fetchCustomerData e sh tok cid \<noteq> None"
    by (auto simp: resolveCustomer_def split: option.splits)
  then have "formatCustomerId cid \<noteq> None"
    by (auto simp: fetchCustomerData_def split: option.splits)
  moreover from assms have "rs_customerId ctx = cid"
    by (auto simp: resolveCustomer_def split: option.splits if_splits)
  ultimately show ?thesis by simp
qed

lemma resolve_formatted:
  assumes "resolve e req = Inr ctx"
  shows "\<exists>formattedCustomerId. formatCustomerId (rs_customerId ctx) = Some formattedCustomerId"
proof -
  from assms obtain sh tok cid items where "resolveCustomer e sh tok cid items = Inr ctx"
    by (auto simp: resolve_def split: option.splits if_splits sum.splits)
  from resolveCustomer_formatted[OF this] show ?thesis by auto
qed

lemma finish_no_discount:
  "c_applicable st = [] \<Longrightarrow>
     finish e ctx st = (json (NoDiscountBody (summaryOf ctx st (Some 0))) 200, c_calls st)"
  by (simp add: finish_def)

lemma priceResolved_applicable_Nil:
  "c_applicable (priceResolved e ctx) = [] \<longleftrightarrow>
     \<not> cartQualifies e 0 (rs_shop ctx) (rs_token ctx) (rules (rs_plan ctx)) (rs_items ctx)"
  by (simp add: priceResolved_def priceCart_applicable_Nil)

lemma priceResolved_no_draft:
  "\<not> list_ex isDraftOrderCreate (c_calls (priceResolved e ctx))"
  by (simp add: priceResolved_def no_draft_in_checks)

lemma filter_no_draft:
  "filter isDraftOrderCreate (c_calls (priceResolved e ctx)) = []"
  using priceResolved_no_draft[of e ctx] by (simp add: list_ex_iff filter_empty_conv)

text \<open>
  Claim C9 (order creation is conditional).  A draft-order call reaches the Order Sink
  if and only if the request gets as far as a plan with rules and at least one cart line
  qualifies; it is then issued once.  When the request gets that far and no line
  qualifies, the answer is a status-200 response with \<open>discountApplicable: false\<close>, the
  totals of the cart, a discount total of 0 and \<open>highestDiscountRate\<close> 0, and the only
  calls made are the membership checks.
\<close>

theorem draft_order_iff_line_qualifies:
  "(list_ex isDraftOrderCreate (snd (action e req)) \<longleftrightarrow>
      (\<exists>ctx. resolve e req = Inr ctx
           \<and> cartQualifies e 0 (rs_shop ctx) (rs_token ctx) (rules (rs_plan ctx))
               (rs_items ctx)))
   \<and> length (filter isDraftOrderCreate (snd (action e req))) \<le> 1
   \<and> (\<forall>ctx. resolve e req = Inr ctx
           \<and> \<not> cartQualifies e 0 (rs_shop ctx) (rs_token ctx) (rules (rs_plan ctx))
                 (rs_items ctx) \<longrightarrow>
         action e req
           = (json (NoDiscountBody (summaryOf ctx (priceResolved e ctx) (Some 0))) 200,
              c_calls (priceResolved e ctx))
         \<and> bodyDiscountApplicable (body (fst (action e req))) = Some False
         \<and> highestDiscountRate (summaryOf ctx (priceResolved e ctx) (Some 0)) = Some 0
         \<and> totalOriginalPrice (summaryOf ctx (priceResolved e ctx) (Some 0))
             = sum_list (map itemTotal (rs_items ctx))
         \<and> totalDiscountAmount (summaryOf ctx (priceResolved e ctx) (Some 0)) = 0
         \<and> applicableDiscounts (summaryOf ctx (priceResolved e ctx) (Some 0)) = [])"
proof (cases "resolve e req")
  case (Inl r)
  then have "action e req = (r, [])" by (simp add: action_def)
  with Inl show ?thesis by simp
next
  case (Inr ctx)
  let ?st = "priceResolved e ctx"
  let ?q = "cartQualifies e 0 (rs_shop ctx) (rs_token ctx) (rules (rs_plan ctx))
              (rs_items ctx)"
  from resolve_formatted[OF Inr] obtain formattedCustomerId
    where fc: "formatCustomerId (rs_customerId ctx) = Some formattedCustomerId" by blast
  have act: "action e req = finish e ctx ?st"
    using Inr by (simp add: action_def)
  show ?thesis
  proof (cases ?q)
    case True
    then have ne: "c_applicable ?st \<noteq> []"
      by (simp add: priceResolved_applicable_Nil)
    have calls: "snd (action e req) =
        c_calls ?st @ [DraftOrderCreate formattedCustomerId
                         (map (draftLineItem (c_applicable ?st)) (rs_items ctx))]"
      unfolding act snd_finish using ne fc by simp
    have "list_ex isDraftOrderCreate (snd (action e req))"
      unfolding calls by (simp add: isDraftOrderCreate_def)
    moreover have "length (filter isDraftOrderCreate (snd (action e req))) \<le> 1"
      unfolding calls by (simp add: filter_no_draft)
    ultimately show ?thesis using Inr True by simp
  next
    case False
    then have nil: "c_applicable ?st = []"
      by (simp add: priceResolved_applicable_Nil)
    have fin: "action e req
        = (json (NoDiscountBody (summaryOf ctx ?st (Some 0))) 200, c_calls ?st)"
      unfolding act by (rule finish_no_discount[OF nil])
    have nodraft: "\<not> list_ex isDraftOrderCreate (snd (action e req))"
      unfolding fin using priceResolved_no_draft[of e ctx] by simp
    have len: "length (filter isDraftOrderCreate (snd (action e req))) \<le> 1"
      unfolding fin by (simp add: filter_no_draft)
    have da: "bodyDiscountApplicable (body (fst (action e req))) = Some False"
      unfolding fin by (simp add: json_def bodyDiscountApplicable_def)
    have tot: "totalOriginalPrice (summaryOf ctx ?st (Some 0))
          = sum_list (map itemTotal (rs_items ctx))"
      by (simp add: summaryOf_def priceResolved_def priceCart_original)
    have disc: "totalDiscountAmount (summaryOf ctx ?st (Some 0)) = 0"
      using nil by (simp add: summaryOf_def priceResolved_def priceCart_discount
          priceCart_applicable)
    have app: "applicableDiscounts (summaryOf ctx ?st (Some 0)) = []"
      using nil by (simp add: summaryOf_def)
    have hi: "highestDiscountRate (summaryOf ctx ?st (Some 0)) = Some 0"
      by (simp add: summaryOf_def)
    show ?thesis
      using Inr False nodraft len fin da tot disc app hi by simp
  qed
qed

lemma resolve_example:
  "items \<noteq> [] \<Longrightarrow>
   resolve exampleEnv (exampleRequest items) =
     Inr \<lparr>rs_shop = ''shop.example'', rs_token = ''token'', rs_customerId = IdStr ''7'',
          rs_items = items,
          rs_segment = \<lparr>segId = ''gid://shopify/Segment/1'', segName = ''VIP''\<rparr>,
          rs_plan = \<lparr>planName = ''VIP plan'', targetType = ''segment'', targetKey = ''VIP'',
            rules = [\<lparr>categoryId = ''gid://shopify/Collection/42'', percentOff = 15\<rparr>]\<rparr>\<rparr>"
  by (simp add: resolve_def resolveCustomer_def processCart_def fetchCustomerData_def
      fetchSegments_def findMatchedSegment_def findDiscountPlan_def findFirstByKey_def
      formatCustomerId_def startsWith_def customerPrefix_def isDigit_def truthyId_def
      exampleEnv_def exampleRequest_def)

theorem draft_order_iff_line_qualifies_witness:
  "list_ex isDraftOrderCreate
     (snd (action exampleEnv (exampleRequest [exampleLine ''gid://shopify/Product/1'' 100 2])))
   \<and> \<not> list_ex isDraftOrderCreate
     (snd (action exampleEnv (exampleRequest [exampleLine ''gid://shopify/Product/3'' 100 2])))
   \<and> bodyDiscountApplicable (body (fst
        (action exampleEnv (exampleRequest [exampleLine ''gid://shopify/Product/3'' 100 2]))))
       = Some False"
proof -
  let ?l1 = "exampleLine ''gid://shopify/Product/1'' 100 2"
  let ?l3 = "exampleLine ''gid://shopify/Product/3'' 100 2"
  note r1 = resolve_example[of "[?l1]", simplified]
  note r3 = resolve_example[of "[?l3]", simplified]
  have q1: "cartQualifies exampleEnv 0 ''shop.example'' ''token''
              [\<lparr>categoryId = ''gid://shopify/Collection/42'', percentOff = 15\<rparr>] [?l1]"
    by (simp add: lineQualifies_def checkProductInCollection_def exampleEnv_def exampleLine_def)
  have q3: "\<not> cartQualifies exampleEnv 0 ''shop.example'' ''token''
              [\<lparr>categoryId = ''gid://shopify/Collection/42'', percentOff = 15\<rparr>] [?l3]"
    by (simp add: lineQualifies_def checkProductInCollection_def exampleEnv_def exampleLine_def)
  have a: "list_ex isDraftOrderCreate (snd (action exampleEnv (exampleRequest [?l1])))"
    using draft_order_iff_line_qualifies[of exampleEnv "exampleRequest [?l1]", THEN conjunct1]
      r1 q1 by simp
  have b: "\<not> list_ex isDraftOrderCreate (snd (action exampleEnv (exampleRequest [?l3])))"
    using draft_order_iff_line_qualifies[of exampleEnv "exampleRequest [?l3]", THEN conjunct1]
      r3 q3 by simp
  have c: "bodyDiscountApplicable (body (fst (action exampleEnv (exampleRequest [?l3]))))
       = Some False"
    using draft_order_iff_line_qualifies[of exampleEnv "exampleRequest [?l3]",
        THEN conjunct2, THEN conjunct2] r3 q3
    by (simp add: json_def bodyDiscountApplicable_def)
  from a b c show ?thesis by (intro conjI)
qed

section \<open>Membership Oracle: a failed check\<close>

lemma checkProductInCollection_fails:
  "membershipFails (membershipQuery e n sh tok pid collectionId) \<Longrightarrow>
     \<not> checkProductInCollection e n sh tok pid collectionId"
  by (auto simp: membershipFails_def checkProductInCollection_def
      split: reply.splits option.splits)

lemma check_treatAsAbsent:
  "checkProductInCollection (treatAsAbsent e) n sh tok pid collectionId
     = checkProductInCollection e n sh tok pid collectionId"
  by (simp add: checkProductInCollection_def treatAsAbsent_def
      split: reply.splits option.splits)

lemma checkRule_treatAsAbsent: "checkRule (treatAsAbsent e) = checkRule e"
  by (intro ext) (simp add: checkRule_def check_treatAsAbsent)

lemma priceItem_treatAsAbsent: "priceItem (treatAsAbsent e) = priceItem e"
  by (intro ext) (simp add: priceItem_def findBestDiscount_def checkRule_treatAsAbsent)

lemma fields_treatAsAbsent:
  "findSession (treatAsAbsent e) = findSession e"
  "planTable (treatAsAbsent e) = planTable e"
  "orderSink (treatAsAbsent e) = orderSink e"
  "fetchCustomerData (treatAsAbsent e) = fetchCustomerData e"
  "fetchSegments (treatAsAbsent e) = fetchSegments e"
  by (simp_all add: treatAsAbsent_def fetchCustomerData_def fetchSegments_def fun_eq_iff
      split: option.splits)

lemma resolveCustomer_treatAsAbsent:
  "resolveCustomer (treatAsAbsent e) sh tok cid items = resolveCustomer e sh tok cid items"
  unfolding resolveCustomer_def fields_treatAsAbsent ..

lemma resolve_treatAsAbsent: "resolve (treatAsAbsent e) req = resolve e req"
  unfolding resolve_def fields_treatAsAbsent resolveCustomer_treatAsAbsent ..

lemma finish_treatAsAbsent: "finish (treatAsAbsent e) ctx st = finish e ctx st"
  unfolding finish_def createDraftOrder_def fields_treatAsAbsent ..

lemma priceResolved_treatAsAbsent: "priceResolved (treatAsAbsent e) ctx = priceResolved e ctx"
  unfolding priceResolved_def priceCart_def priceItem_treatAsAbsent ..

lemma action_treatAsAbsent: "action (treatAsAbsent e) req = action e req"
  unfolding action_def resolve_treatAsAbsent finish_treatAsAbsent priceResolved_treatAsAbsent ..

lemma lineEntry_check:
  assumes "lineEntry e n0 sh tok rs item = Some d"
  shows "d_productId d = productId item
       \<and> (\<exists>j<length rs. d_collectionId d = categoryId (rs ! j)
             \<and> d_percentOff d = percentOff (rs ! j) \<and> 0 < percentOff (rs ! j)
             \<and> checkProductInCollection e (n0 + j) sh tok (productId item)
                 (categoryId (rs ! j)))"
proof -
  from assms obtain r where r: "bestDiscount (findBestDiscount e n0 sh tok (productId item) rs) = Some r"
    and d: "d_productId d = productId item" "d_collectionId d = categoryId r"
      "d_percentOff d = bestPercentOff (findBestDiscount e n0 sh tok (productId item) rs)"
    by (auto simp: lineEntry_def split: option.splits)
  from findBestDiscount_Some[OF r] d show ?thesis by auto
qed

lemma cartEntries_line:
  "d \<in> set (cartEntries e n sh tok rs items) \<Longrightarrow>
     \<exists>k<length items. lineEntry e (n + k * length rs) sh tok rs (items ! k) = Some d"
proof (induction items arbitrary: n)
  case Nil
  then show ?case by simp
next
  case (Cons item items)
  show ?case
  proof (cases "lineEntry e n sh tok rs item = Some d")
    case True
    then have "lineEntry e (n + 0 * length rs) sh tok rs ((item # items) ! 0) = Some d"
      by simp
    then show ?thesis by blast
  next
    case False
    with Cons.prems have "d \<in> set (cartEntries e (n + length rs) sh tok rs items)"
      by (auto split: option.splits)
    from Cons.IH[OF this] obtain k where "k < length items"
      "lineEntry e (n + length rs + k * length rs) sh tok rs (items ! k) = Some d"
      by blast
    then have "Suc k < length (item # items)"
      "lineEntry e (n + Suc k * length rs) sh tok rs ((item # items) ! Suc k) = Some d"
      by (simp_all add: add.assoc)
    then show ?thesis by blast
  qed
qed

lemma draftLineItem_discount:
  "li_appliedDiscount (draftLineItem ads item) = Some p \<Longrightarrow>
     \<exists>d\<in>set ads. d_productId d = productId item \<and> d_percentOff d = p \<and> 0 < p"
  by (auto simp: draftLineItem_def find_Some_iff split: option.splits if_splits)

lemma draft_call_lines:
  assumes "DraftOrderCreate c ls \<in> set (snd (action e req))"
  shows "\<exists>ctx. resolve e req = Inr ctx
     \<and> ls = map (draftLineItem
                   (cartEntries e 0 (rs_shop ctx) (rs_token ctx) (rules (rs_plan ctx))
                      (rs_items ctx)))
              (rs_items ctx)"
proof (cases "resolve e req")
  case (Inl r)
  with assms show ?thesis by (simp add: action_def)
next
  case (Inr ctx)
  have "DraftOrderCreate c ls \<notin> set (c_calls (priceResolved e ctx))"
    using priceResolved_no_draft[of e ctx]
    by (auto simp: list_ex_iff isDraftOrderCreate_def)
  with assms Inr
  have "ls = map (draftLineItem (c_applicable (priceResolved e ctx))) (rs_items ctx)"
    by (auto simp: action_def snd_finish split: if_splits option.splits)
  with Inr show ?thesis
    by (simp add: priceResolved_def priceCart_applicable)
qed

text \<open>
  Claim C8 (membership-check failure policy), as amended.  Every membership check is a
  request of its own.  A check that fails (the call throws, the service answers with
  errors, or the product is missing from the answer) returns false and leaves the search
  for the line's best discount as it was; each rule is checked once per line, whatever
  the answers are, and the whole request ends exactly as it would if every failed check
  had answered that the product is in no collection: the same response and the same
  calls.  The discount of a line always rests on a check that did not fail, made for that
  line's product and the rule that gives the discount; and a line of a draft order sent
  to the Order Sink carries a discount only if some check made for its product and a rule
  with that \<open>percentOff\<close> did not fail.  A failed check does not cancel the other checks
  of the same product and collection.
\<close>

theorem failed_membership_check_is_skipped:
  "(membershipFails (membershipQuery e n sh tok pid collectionId) \<longrightarrow>
      \<not> checkProductInCollection e n sh tok pid collectionId)
   \<and> (membershipFails (membershipQuery e (n0 + length (checks st)) sh tok pid (categoryId r)) \<longrightarrow>
        bestDiscount (checkRule e n0 sh tok pid st r) = bestDiscount st
        \<and> bestPercentOff (checkRule e n0 sh tok pid st r) = bestPercentOff st)
   \<and> (\<forall>b. bestDiscount (findBestDiscount e n0 sh tok pid rs) = Some b \<longrightarrow>
         (\<exists>j<length rs. rs ! j = b
            \<and> \<not> membershipFails (membershipQuery e (n0 + j) sh tok pid (categoryId b))
            \<and> checkProductInCollection e (n0 + j) sh tok pid (categoryId b)))
   \<and> (\<forall>item d. lineEntry e n0 sh tok rs item = Some d \<longrightarrow>
         (\<exists>j<length rs. d_collectionId d = categoryId (rs ! j)
            \<and> d_percentOff d = percentOff (rs ! j)
            \<and> \<not> membershipFails
                  (membershipQuery e (n0 + j) sh tok (productId item) (categoryId (rs ! j)))))
   \<and> checks (findBestDiscount e n0 sh tok pid rs)
       = map (\<lambda>r. MembershipCheck pid (categoryId r)) rs
   \<and> action (treatAsAbsent e) req = action e req
   \<and> (\<forall>c ls. DraftOrderCreate c ls \<in> set (snd (action e req)) \<longrightarrow>
         (\<exists>ctx. resolve e req = Inr ctx
            \<and> length ls = length (rs_items ctx)
            \<and> (\<forall>i<length ls. \<forall>p. li_appliedDiscount (ls ! i) = Some p \<longrightarrow>
                  (\<exists>k<length (rs_items ctx). \<exists>j<length (rules (rs_plan ctx)).
                      productId (rs_items ctx ! k) = productId (rs_items ctx ! i)
                      \<and> percentOff (rules (rs_plan ctx) ! j) = p \<and> 0 < p
                      \<and> \<not> membershipFails
                            (membershipQuery e (k * length (rules (rs_plan ctx)) + j)
                               (rs_shop ctx) (rs_token ctx) (productId (rs_items ctx ! k))
                               (categoryId (rules (rs_plan ctx) ! j)))))))"
proof (intro conjI impI allI)
  show "\<not> checkProductInCollection e n sh tok pid collectionId"
    if "membershipFails (membershipQuery e n sh tok pid collectionId)"
    using that by (rule checkProductInCollection_fails)
next
  assume "membershipFails (membershipQuery e (n0 + length (checks st)) sh tok pid (categoryId r))"
  then have "\<not> (checkProductInCollection e (n0 + length (checks st)) sh tok pid (categoryId r)
       \<and> bestPercentOff st < percentOff r)"
    using checkProductInCollection_fails by blast
  from checkRule_skip[OF this]
  show "bestDiscount (checkRule e n0 sh tok pid st r) = bestDiscount st"
    and "bestPercentOff (checkRule e n0 sh tok pid st r) = bestPercentOff st"
    by simp_all
next
  fix b
  assume "bestDiscount (findBestDiscount e n0 sh tok pid rs) = Some b"
  from findBestDiscount_Some[OF this] obtain j where "j < length rs" "rs ! j = b"
    "checkProductInCollection e (n0 + j) sh tok pid (categoryId b)"
    by auto
  moreover from this have
    "\<not> membershipFails (membershipQuery e (n0 + j) sh tok pid (categoryId b))"
    using checkProductInCollection_fails by blast
  ultimately show "\<exists>j<length rs. rs ! j = b
            \<and> \<not> membershipFails (membershipQuery e (n0 + j) sh tok pid (categoryId b))
            \<and> checkProductInCollection e (n0 + j) sh tok pid (categoryId b)"
    by blast
next
  fix item d
  assume "lineEntry e n0 sh tok rs item = Some d"
  from lineEntry_check[OF this] obtain j where "j < length rs"
    "d_collectionId d = categoryId (rs ! j)" "d_percentOff d = percentOff (rs ! j)"
    "checkProductInCollection e (n0 + j) sh tok (productId item) (categoryId (rs ! j))"
    by blast
  moreover from this have "\<not> membershipFails
      (membershipQuery e (n0 + j) sh tok (productId item) (categoryId (rs ! j)))"
    using checkProductInCollection_fails by blast
  ultimately show "\<exists>j<length rs. d_collectionId d = categoryId (rs ! j)
            \<and> d_percentOff d = percentOff (rs ! j)
            \<and> \<not> membershipFails
                  (membershipQuery e (n0 + j) sh tok (productId item) (categoryId (rs ! j)))"
    by blast
next
  show "checks (findBestDiscount e n0 sh tok pid rs)
      = map (\<lambda>r. MembershipCheck pid (categoryId r)) rs"
    by (rule findBestDiscount_checks)
next
  show "action (treatAsAbsent e) req = action e req"
    by (rule action_treatAsAbsent)
next
  fix c ls
  assume "DraftOrderCreate c ls \<in> set (snd (action e req))"
  from draft_call_lines[OF this] obtain ctx where ctx: "resolve e req = Inr ctx"
    and ls: "ls = map (draftLineItem
                   (cartEntries e 0 (rs_shop ctx) (rs_token ctx) (rules (rs_plan ctx))
                      (rs_items ctx)))
              (rs_items ctx)"
    by blast
  let ?rs = "rules (rs_plan ctx)"
  let ?items = "rs_items ctx"
  have "\<exists>k<length ?items. \<exists>j<length ?rs.
            productId (?items ! k) = productId (?items ! i)
            \<and> percentOff (?rs ! j) = p \<and> 0 < p
            \<and> \<not> membershipFails
                  (membershipQuery e (k * length ?rs + j) (rs_shop ctx) (rs_token ctx)
                     (productId (?items ! k)) (categoryId (?rs ! j)))"
    if i: "i < length ls" and p: "li_appliedDiscount (ls ! i) = Some p" for i p
  proof -
    from i p ls have "li_appliedDiscount
        (draftLineItem (cartEntries e 0 (rs_shop ctx) (rs_token ctx) ?rs ?items) (?items ! i))
        = Some p"
      by simp
    from draftLineItem_discount[OF this] obtain d
      where d: "d \<in> set (cartEntries e 0 (rs_shop ctx) (rs_token ctx) ?rs ?items)"
        "d_productId d = productId (?items ! i)" "d_percentOff d = p" "0 < p"
      by blast
    from cartEntries_line[OF d(1)] obtain k where k: "k < length ?items"
      "lineEntry e (k * length ?rs) (rs_shop ctx) (rs_token ctx) ?rs (?items ! k) = Some d"
      by auto
    from lineEntry_check[OF k(2)] obtain j where j: "j < length ?rs"
      "d_productId d = productId (?items ! k)" "d_percentOff d = percentOff (?rs ! j)"
      "checkProductInCollection e (k * length ?rs + j) (rs_shop ctx) (rs_token ctx)
         (productId (?items ! k)) (categoryId (?rs ! j))"
      by blast
    from j(4) have "\<not> membershipFails
        (membershipQuery e (k * length ?rs + j) (rs_shop ctx) (rs_token ctx)
           (productId (?items ! k)) (categoryId (?rs ! j)))"
      using checkProductInCollection_fails by blast
    with k(1) j(1,2,3) d(2,3,4) show ?thesis by auto
  qed
  with ctx ls show "\<exists>ctx. resolve e req = Inr ctx
            \<and> length ls = length (rs_items ctx)
            \<and> (\<forall>i<length ls. \<forall>p. li_appliedDiscount (ls ! i) = Some p \<longrightarrow>
                  (\<exists>k<length (rs_items ctx). \<exists>j<length (rules (rs_plan ctx)).
                      productId (rs_items ctx ! k) = productId (rs_items ctx ! i)
                      \<and> percentOff (rules (rs_plan ctx) ! j) = p \<and> 0 < p
                      \<and> \<not> membershipFails
                            (membershipQuery e (k * length (rules (rs_plan ctx)) + j)
                               (rs_shop ctx) (rs_token ctx) (productId (rs_items ctx ! k))
                               (categoryId (rules (rs_plan ctx) ! j)))))"
    by (intro exI[of _ ctx]) simp
qed

theorem failed_membership_check_is_skipped_witness:
  "membershipFails (membershipQuery exampleEnv 0 ''shop.example'' ''token''
      ''gid://shopify/Product/2'' ''gid://shopify/Collection/42'')
   \<and> \<not> checkProductInCollection exampleEnv 0 ''shop.example'' ''token''
      ''gid://shopify/Product/2'' ''gid://shopify/Collection/42''
   \<and> lineEntry exampleEnv 0 ''shop.example'' ''token''
        [\<lparr>categoryId = ''gid://shopify/Collection/42'', percentOff = 15\<rparr>]
        (exampleLine ''gid://shopify/Product/2'' 100 2) = None
   \<and> action (treatAsAbsent exampleEnv)
        (exampleRequest [exampleLine ''gid://shopify/Product/2'' 100 2])
     = action exampleEnv (exampleRequest [exampleLine ''gid://shopify/Product/2'' 100 2])"
proof -
  note inst = failed_membership_check_is_skipped
    [of exampleEnv 0 "''shop.example''" "''token''" "''gid://shopify/Product/2''"
        "''gid://shopify/Collection/42''" 0 _ _
        "[\<lparr>categoryId = ''gid://shopify/Collection/42'', percentOff = 15\<rparr>]"
        "exampleRequest [exampleLine ''gid://shopify/Product/2'' 100 2]"]
  have f: "membershipFails (membershipQuery exampleEnv 0 ''shop.example'' ''token''
      ''gid://shopify/Product/2'' ''gid://shopify/Collection/42'')"
    by (simp add: membershipFails_def exampleEnv_def)
  from inst[THEN conjunct1] f
  have n: "\<not> checkProductInCollection exampleEnv 0 ''shop.example'' ''token''
      ''gid://shopify/Product/2'' ''gid://shopify/Collection/42''"
    by blast
  have l: "lineEntry exampleEnv 0 ''shop.example'' ''token''
        [\<lparr>categoryId = ''gid://shopify/Collection/42'', percentOff = 15\<rparr>]
        (exampleLine ''gid://shopify/Product/2'' 100 2) = None"
    using n by (simp add: lineEntry_None lineQualifies_def exampleLine_def)
  from f n l
    inst[THEN conjunct2, THEN conjunct2, THEN conjunct2, THEN conjunct2, THEN conjunct2,
      THEN conjunct1]
  show ?thesis by (intro conjI)
qed

lemma resolve_unsteady:
  "items \<noteq> [] \<Longrightarrow>
   resolve (unsteadyEnv failing) (exampleRequest items) =
     Inr \<lparr>rs_shop = ''shop.example'', rs_token = ''token'', rs_customerId = IdStr ''7'',
          rs_items = items,
          rs_segment = \<lparr>segId = ''gid://shopify/Segment/1'', segName = ''VIP''\<rparr>,
          rs_plan = \<lparr>planName = ''VIP plan'', targetType = ''segment'', targetKey = ''VIP'',
            rules = [\<lparr>categoryId = ''gid://shopify/Collection/42'', percentOff = 10\<rparr>,
                     \<lparr>categoryId = ''gid://shopify/Collection/42'', percentOff = 20\<rparr>]\<rparr>\<rparr>"
  by (simp add: resolve_def resolveCustomer_def processCart_def fetchCustomerData_def
      fetchSegments_def findMatchedSegment_def findDiscountPlan_def findFirstByKey_def
      formatCustomerId_def startsWith_def customerPrefix_def isDigit_def truthyId_def
      unsteadyEnv_def exampleEnv_def exampleRequest_def)

lemma lineEntry_unsteady:
  "lineEntry (unsteadyEnv failing) n0 ''shop.example'' ''token''
     [\<lparr>categoryId = ''gid://shopify/Collection/42'', percentOff = 10\<rparr>,
      \<lparr>categoryId = ''gid://shopify/Collection/42'', percentOff = 20\<rparr>]
     (exampleLine ''gid://shopify/Product/1'' 100 2)
   = (if failing (Suc n0)
      then (if failing n0 then None
            else Some \<lparr>d_productId = ''gid://shopify/Product/1'',
                       d_collectionId = ''gid://shopify/Collection/42'',
                       d_percentOff = 10, d_originalPrice = 200, d_discountedPrice = 180,
                       d_discountAmount = 20\<rparr>)
      else Some \<lparr>d_productId = ''gid://shopify/Product/1'',
                 d_collectionId = ''gid://shopify/Collection/42'',
                 d_percentOff = 20, d_originalPrice = 200, d_discountedPrice = 160,
                 d_discountAmount = 40\<rparr>)"
  by (simp add: lineEntry_def findBestDiscount_def checkRule_def checkProductInCollection_def
      Let_def unsteadyEnv_def itemTotal_def exampleLine_def)

lemma draftLineItem_unsteady:
  "draftLineItem
       [\<lparr>d_productId = ''gid://shopify/Product/1'',
             d_collectionId = ''gid://shopify/Collection/42'',
             d_percentOff = 20, d_originalPrice = 200, d_discountedPrice = 160,
             d_discountAmount = 40\<rparr>] (exampleLine ''gid://shopify/Product/1'' 100 2)
     = \<lparr>li_variantId = ''gid://shopify/ProductVariant/11'', li_quantity = Some 2,
            li_appliedDiscount = Some 20\<rparr>"
  by (simp add: draftLineItem_def exampleLine_def)

lemma calls_unsteady:
  assumes "items \<noteq> []"
    and "cartEntries (unsteadyEnv failing) 0 ''shop.example'' ''token''
           [\<lparr>categoryId = ''gid://shopify/Collection/42'', percentOff = 10\<rparr>,
            \<lparr>categoryId = ''gid://shopify/Collection/42'', percentOff = 20\<rparr>] items = d # ds"
  shows "snd (action (unsteadyEnv failing) (exampleRequest items))
     = concat (map (\<lambda>item.
           [MembershipCheck (productId item) ''gid://shopify/Collection/42'',
            MembershipCheck (productId item) ''gid://shopify/Collection/42'']) items)
       @ [DraftOrderCreate ''gid://shopify/Customer/7''
            (map (draftLineItem (d # ds)) items)]"
proof -
  have fc: "formatCustomerId (IdStr ''7'') = Some ''gid://shopify/Customer/7''"
    by (simp add: formatCustomerId_def startsWith_def customerPrefix_def isDigit_def)
  show ?thesis
    unfolding action_def resolve_unsteady[OF assms(1)]
    by (simp add: snd_finish priceResolved_def priceCart_applicable priceCart_calls
        assms(2) fc)
qed

text \<open>
  Two requests against the claim as it was stated.  In the first the plan names
  collection 42 in two rules and the first check of product 1 against collection 42
  fails, while the second does not: the line gets the 20 percent discount of collection
  42.  In the second the cart has two lines of product 1 and every check of the second
  line fails: the second line has no entry in \<open>applicableDiscounts\<close>, and the draft order
  discounts both lines.
\<close>

theorem failed_membership_check_other_check_counterexample:
  "membershipFails (membershipQuery (unsteadyEnv (\<lambda>n. n = 0)) 0 ''shop.example'' ''token''
      ''gid://shopify/Product/1'' ''gid://shopify/Collection/42'')
   \<and> cartEntries (unsteadyEnv (\<lambda>n. n = 0)) 0 ''shop.example'' ''token''
        [\<lparr>categoryId = ''gid://shopify/Collection/42'', percentOff = 10\<rparr>,
         \<lparr>categoryId = ''gid://shopify/Collection/42'', percentOff = 20\<rparr>]
        [exampleLine ''gid://shopify/Product/1'' 100 2]
     = [\<lparr>d_productId = ''gid://shopify/Product/1'',
         d_collectionId = ''gid://shopify/Collection/42'',
         d_percentOff = 20, d_originalPrice = 200, d_discountedPrice = 160,
         d_discountAmount = 40\<rparr>]
   \<and> snd (action (unsteadyEnv (\<lambda>n. n = 0))
           (exampleRequest [exampleLine ''gid://shopify/Product/1'' 100 2]))
     = [MembershipCheck ''gid://shopify/Product/1'' ''gid://shopify/Collection/42'',
        MembershipCheck ''gid://shopify/Product/1'' ''gid://shopify/Collection/42'',
        DraftOrderCreate ''gid://shopify/Customer/7''
          [\<lparr>li_variantId = ''gid://shopify/ProductVariant/11'', li_quantity = Some 2,
            li_appliedDiscount = Some 20\<rparr>]]
   \<and> membershipFails (membershipQuery (unsteadyEnv (\<lambda>n. 2 \<le> n)) 2 ''shop.example'' ''token''
      ''gid://shopify/Product/1'' ''gid://shopify/Collection/42'')
   \<and> membershipFails (membershipQuery (unsteadyEnv (\<lambda>n. 2 \<le> n)) 3 ''shop.example'' ''token''
      ''gid://shopify/Product/1'' ''gid://shopify/Collection/42'')
   \<and> lineEntry (unsteadyEnv (\<lambda>n. 2 \<le> n)) 2 ''shop.example'' ''token''
        [\<lparr>categoryId = ''gid://shopify/Collection/42'', percentOff = 10\<rparr>,
         \<lparr>categoryId = ''gid://shopify/Collection/42'', percentOff = 20\<rparr>]
        (exampleLine ''gid://shopify/Product/1'' 100 2) = None
   \<and> snd (action (unsteadyEnv (\<lambda>n. 2 \<le> n))
           (exampleRequest [exampleLine ''gid://shopify/Product/1'' 100 2,
                            exampleLine ''gid://shopify/Product/1'' 100 2]))
     = [MembershipCheck ''gid://shopify/Product/1'' ''gid://shopify/Collection/42'',
        MembershipCheck ''gid://shopify/Product/1'' ''gid://shopify/Collection/42'',
        MembershipCheck ''gid://shopify/Product/1'' ''gid://shopify/Collection/42'',
        MembershipCheck ''gid://shopify/Product/1'' ''gid://shopify/Collection/42'',
        DraftOrderCreate ''gid://shopify/Customer/7''
          [\<lparr>li_variantId = ''gid://shopify/ProductVariant/11'', li_quantity = Some 2,
            li_appliedDiscount = Some 20\<rparr>,
           \<lparr>li_variantId = ''gid://shopify/ProductVariant/11'', li_quantity = Some 2,
            li_appliedDiscount = Some 20\<rparr>]]"
proof -
  let ?l = "exampleLine ''gid://shopify/Product/1'' 100 2"
  let ?rs = "[\<lparr>categoryId = ''gid://shopify/Collection/42'', percentOff = 10\<rparr>,
              \<lparr>categoryId = ''gid://shopify/Collection/42'', percentOff = 20\<rparr>]"
  let ?d = "\<lparr>d_productId = ''gid://shopify/Product/1'',
         d_collectionId = ''gid://shopify/Collection/42'',
         d_percentOff = 20, d_originalPrice = 200, d_discountedPrice = 160,
         d_discountAmount = (40::real)\<rparr>"
  have pid: "productId ?l = ''gid://shopify/Product/1''"
    by (simp add: exampleLine_def)
  have f0: "membershipFails (membershipQuery (unsteadyEnv (\<lambda>n. n = 0)) 0 ''shop.example''
      ''token'' ''gid://shopify/Product/1'' ''gid://shopify/Collection/42'')"
    by (simp add: membershipFails_def unsteadyEnv_def)
  have ce1: "cartEntries (unsteadyEnv (\<lambda>n. n = 0)) 0 ''shop.example'' ''token'' ?rs [?l] = [?d]"
    by (simp add: lineEntry_unsteady)
  have calls1: "snd (action (unsteadyEnv (\<lambda>n. n = 0)) (exampleRequest [?l]))
     = [MembershipCheck ''gid://shopify/Product/1'' ''gid://shopify/Collection/42'',
        MembershipCheck ''gid://shopify/Product/1'' ''gid://shopify/Collection/42'',
        DraftOrderCreate ''gid://shopify/Customer/7''
          [\<lparr>li_variantId = ''gid://shopify/ProductVariant/11'', li_quantity = Some 2,
            li_appliedDiscount = Some 20\<rparr>]]"
    using calls_unsteady[OF _ ce1] by (simp add: pid draftLineItem_unsteady)
  have f2: "membershipFails (membershipQuery (unsteadyEnv (\<lambda>n. 2 \<le> n)) 2 ''shop.example''
      ''token'' ''gid://shopify/Product/1'' ''gid://shopify/Collection/42'')"
    and f3: "membershipFails (membershipQuery (unsteadyEnv (\<lambda>n. 2 \<le> n)) 3 ''shop.example''
      ''token'' ''gid://shopify/Product/1'' ''gid://shopify/Collection/42'')"
    by (simp_all add: membershipFails_def unsteadyEnv_def)
  have le2: "lineEntry (unsteadyEnv (\<lambda>n. 2 \<le> n)) 2 ''shop.example'' ''token'' ?rs ?l = None"
    by (simp add: lineEntry_unsteady)
  have ce2: "cartEntries (unsteadyEnv (\<lambda>n. 2 \<le> n)) 0 ''shop.example'' ''token'' ?rs [?l, ?l]
      = [?d]"
    by (simp add: lineEntry_unsteady)
  have calls2: "snd (action (unsteadyEnv (\<lambda>n. 2 \<le> n)) (exampleRequest [?l, ?l]))
     = [MembershipCheck ''gid://shopify/Product/1'' ''gid://shopify/Collection/42'',
        MembershipCheck ''gid://shopify/Product/1'' ''gid://shopify/Collection/42'',
        MembershipCheck ''gid://shopify/Product/1'' ''gid://shopify/Collection/42'',
        MembershipCheck ''gid://shopify/Product/1'' ''gid://shopify/Collection/42'',
        DraftOrderCreate ''gid://shopify/Customer/7''
          [\<lparr>li_variantId = ''gid://shopify/ProductVariant/11'', li_quantity = Some 2,
            li_appliedDiscount = Some 20\<rparr>,
           \<lparr>li_variantId = ''gid://shopify/ProductVariant/11'', li_quantity = Some 2,
            li_appliedDiscount = Some 20\<rparr>]]"
    using calls_unsteady[OF _ ce2] by (simp add: pid draftLineItem_unsteady)
  from f0 ce1 calls1 f2 f3 le2 calls2 show ?thesis by (intro conjI)
qed

section \<open>Order route: customer or plan not found\<close>

lemma resolve_validated:
  assumes "shop req = Some sh" and "sh \<noteq> []" and "customerId req = cid" and "truthyId cid"
    and "cartItems req = Some c" and "processCart c = Inr items" and "items \<noteq> []"
    and "findSession e sh = Some tok"
  shows "resolve e req = resolveCustomer e sh tok cid items"
  using assms by (simp add: resolve_def)

text \<open>
  Claim C5 (not-found handling), as amended.  For a well-formed request of a shop with a
  session: when the customer is unknown the order route answers with status 404 and the
  error \<open>Customer not found\<close>; when the customer and a matching segment are found but no
  plan targets the segment, or the plan has no rules, it answers with status 200 and
  \<open>discountApplicable: false\<close>.  Neither case calls the Membership Oracle or the Order
  Sink.
\<close>

theorem customer_or_plan_not_found:
  assumes "shop req = Some sh" and "sh \<noteq> []" and "customerId req = cid" and "truthyId cid"
    and "cartItems req = Some c" and "processCart c = Inr items" and "items \<noteq> []"
    and "findSession e sh = Some tok"
  shows "(fetchCustomerData e sh tok cid = None \<longrightarrow>
            action e req = (json (ErrorBody ''Customer not found'') 404, []))
       \<and> (\<forall>tags segs seg.
            fetchCustomerData e sh tok cid = Some tags \<and> fetchSegments e sh tok = Some segs
            \<and> findMatchedSegment segs tags = Some seg
            \<and> (case findDiscountPlan (planTable e) seg of
                  None \<Rightarrow> True | Some p \<Rightarrow> rules p = []) \<longrightarrow>
            action e req = (json NoPlanBody 200, [])
            \<and> bodyDiscountApplicable (body (fst (action e req))) = Some False)"
proof -
  note r = resolve_validated[OF assms]
  have a: "action e req = (json (ErrorBody ''Customer not found'') 404, [])"
    if "fetchCustomerData e sh tok cid = None"
    using that by (simp add: action_def r resolveCustomer_def)
  have b: "action e req = (json NoPlanBody 200, [])"
    if "fetchCustomerData e sh tok cid = Some tags" and "fetchSegments e sh tok = Some segs"
      and "findMatchedSegment segs tags = Some seg"
      and "case findDiscountPlan (planTable e) seg of None \<Rightarrow> True | Some p \<Rightarrow> rules p = []"
    for tags segs seg
    using that by (simp add: action_def r resolveCustomer_def split: option.splits)
  have c: "bodyDiscountApplicable (body (json NoPlanBody 200)) = Some False"
    by (simp add: json_def bodyDiscountApplicable_def)
  from a b c show ?thesis by simp
qed

theorem customer_or_plan_not_found_witness:
  "action exampleEnv ((exampleRequest [exampleLine ''gid://shopify/Product/1'' 100 2])
       \<lparr>customerId := IdStr ''8''\<rparr>)
     = (json (ErrorBody ''Customer not found'') 404, [])
   \<and> action (exampleEnv\<lparr>planTable := []\<rparr>)
        (exampleRequest [exampleLine ''gid://shopify/Product/1'' 100 2])
     = (json NoPlanBody 200, [])
   \<and> bodyDiscountApplicable (body (fst (action (exampleEnv\<lparr>planTable := []\<rparr>)
        (exampleRequest [exampleLine ''gid://shopify/Product/1'' 100 2])))) = Some False"
proof -
  let ?l = "exampleLine ''gid://shopify/Product/1'' 100 2"
  let ?r8 = "(exampleRequest [?l])\<lparr>customerId := IdStr ''8''\<rparr>"
  let ?e = "exampleEnv\<lparr>planTable := []\<rparr>"
  let ?seg = "\<lparr>segId = ''gid://shopify/Segment/1'', segName = ''VIP''\<rparr>"
  have pc: "processCart (CartArray [?l]) = Inr [?l]"
    by (simp add: processCart_def)
  have ne: "[?l] \<noteq> []" and sne: "''shop.example'' \<noteq> []"
    by simp_all
  have c7: "truthyId (IdStr ''7'')" and c8: "truthyId (IdStr ''8'')"
    by (simp_all add: truthyId_def)
  have req8: "shop ?r8 = Some ''shop.example''" "customerId ?r8 = IdStr ''8''"
    "cartItems ?r8 = Some (CartArray [?l])"
    by (simp_all add: exampleRequest_def)
  have req7: "shop (exampleRequest [?l]) = Some ''shop.example''"
    "customerId (exampleRequest [?l]) = IdStr ''7''"
    "cartItems (exampleRequest [?l]) = Some (CartArray [?l])"
    by (simp_all add: exampleRequest_def)
  have ses: "findSession exampleEnv ''shop.example'' = Some ''token''"
    "findSession ?e ''shop.example'' = Some ''token''"
    by (simp_all add: exampleEnv_def)
  have absent: "fetchCustomerData exampleEnv ''shop.example'' ''token'' (IdStr ''8'') = None"
    by (simp add: fetchCustomerData_def formatCustomerId_def startsWith_def customerPrefix_def
        isDigit_def exampleEnv_def)
  have a: "action exampleEnv ?r8 = (json (ErrorBody ''Customer not found'') 404, [])"
    using customer_or_plan_not_found
      [OF req8(1) sne req8(2) c8 req8(3) pc ne ses(1), THEN conjunct1] absent
    by blast
  have present: "fetchCustomerData ?e ''shop.example'' ''token'' (IdStr ''7'') = Some [''VIP'']"
    by (simp add: fetchCustomerData_def formatCustomerId_def startsWith_def customerPrefix_def
        isDigit_def exampleEnv_def)
  have segs: "fetchSegments ?e ''shop.example'' ''token'' = Some [?seg]"
    by (simp add: fetchSegments_def exampleEnv_def)
  have seg: "findMatchedSegment [?seg] [''VIP''] = Some ?seg"
    by (simp add: findMatchedSegment_def)
  have noplan: "case findDiscountPlan (planTable ?e) ?seg of
                  None \<Rightarrow> True | Some p \<Rightarrow> rules p = []"
    by (simp add: findDiscountPlan_def findFirstByKey_def)
  have b: "action ?e (exampleRequest [?l]) = (json NoPlanBody 200, [])
      \<and> bodyDiscountApplicable (body (fst (action ?e (exampleRequest [?l])))) = Some False"
    using customer_or_plan_not_found
      [OF req7(1) sne req7(2) c7 req7(3) pc ne ses(2), THEN conjunct2]
      present segs seg noplan
    by blast
  from a b show ?thesis by (intro conjI) blast+
qed

theorem customer_absent_counterexample:
  "status (fst (action exampleEnv
      ((exampleRequest [exampleLine ''gid://shopify/Product/1'' 100 2])
         \<lparr>customerId := IdStr ''8''\<rparr>))) = 404
   \<and> bodyDiscountApplicable (body (fst (action exampleEnv
      ((exampleRequest [exampleLine ''gid://shopify/Product/1'' 100 2])
         \<lparr>customerId := IdStr ''8''\<rparr>)))) = None"
  by (simp add: action_def resolve_def resolveCustomer_def processCart_def
      fetchCustomerData_def formatCustomerId_def startsWith_def customerPrefix_def
      isDigit_def truthyId_def exampleEnv_def exampleRequest_def exampleLine_def json_def
      bodyDiscountApplicable_def)

section \<open>Discount Calculator: amounts and savings\<close>

lemma lineEntry_Some:
  assumes "lineEntry e n0 sh tok rs item = Some d"
  shows "d_productId d = productId item"
    and "d_originalPrice d = itemTotal item"
    and "d_percentOff d = bestPercentOff (findBestDiscount e n0 sh tok (productId item) rs)"
    and "d_discountAmount d = (d_originalPrice d * d_percentOff d) / 100"
    and "d_discountedPrice d = d_originalPrice d - d_discountAmount d"
  using assms by (auto simp: lineEntry_def split: option.splits)

text \<open>
  Claim C2 (Discount Calculator), as amended.  For a cart line that gets a discount, the
  percentage is the greatest \<open>percentOff\<close> among the rules whose membership check for the
  line answers true, and the pushed entry has \<open>originalPrice = price * quantity\<close> (quantity 1 when
  absent), \<open>discountAmount = originalPrice * percentOff / 100\<close> and
  \<open>discountedPrice = originalPrice - discountAmount\<close>.  The totals are the sums over the
  lines, and \<open>savingsPercentage\<close> is \<open>totalDiscountAmount / totalOriginalPrice * 100\<close> when
  \<open>totalOriginalPrice\<close> is positive and 0 otherwise.
\<close>

theorem line_amounts_and_savings:
  "(lineEntry e n0 sh tok rs item = Some d \<longrightarrow>
        d_originalPrice d = price item * (case quantity item of None \<Rightarrow> 1 | Some q \<Rightarrow> q)
      \<and> d_discountAmount d = (d_originalPrice d * d_percentOff d) / 100
      \<and> d_discountedPrice d = d_originalPrice d - d_discountAmount d
      \<and> 0 < d_percentOff d
      \<and> (\<exists>j<length rs.
              checkProductInCollection e (n0 + j) sh tok (productId item) (categoryId (rs ! j))
              \<and> percentOff (rs ! j) = d_percentOff d
              \<and> categoryId (rs ! j) = d_collectionId d)
      \<and> (\<forall>j<length rs.
              checkProductInCollection e (n0 + j) sh tok (productId item) (categoryId (rs ! j))
              \<longrightarrow> percentOff (rs ! j) \<le> d_percentOff d))
   \<and> applicableDiscounts (summaryOf ctx (priceResolved e ctx) h)
       = cartEntries e 0 (rs_shop ctx) (rs_token ctx) (rules (rs_plan ctx)) (rs_items ctx)
   \<and> (\<forall>d'\<in>set (applicableDiscounts (summaryOf ctx (priceResolved e ctx) h)).
         \<exists>k<length (rs_items ctx).
           lineEntry e (k * length (rules (rs_plan ctx))) (rs_shop ctx) (rs_token ctx)
             (rules (rs_plan ctx)) (rs_items ctx ! k) = Some d')
   \<and> totalOriginalPrice (summaryOf ctx (priceResolved e ctx) h)
       = sum_list (map itemTotal (rs_items ctx))
   \<and> totalDiscountAmount (summaryOf ctx (priceResolved e ctx) h)
       = sum_list (map d_discountAmount (applicableDiscounts (summaryOf ctx (priceResolved e ctx) h)))
   \<and> savingsPercentage (summaryOf ctx st h)
       = (if totalOriginalPrice (summaryOf ctx st h) > 0
          then (totalDiscountAmount (summaryOf ctx st h) / totalOriginalPrice (summaryOf ctx st h))
               * 100
          else 0)"
proof (intro conjI impI ballI)
  assume le: "lineEntry e n0 sh tok rs item = Some d"
  note f = lineEntry_Some[OF le]
  note g = lineEntry_check[OF le]
  show "d_originalPrice d = price item * (case quantity item of None \<Rightarrow> 1 | Some q \<Rightarrow> q)"
    using f(2) by (simp add: itemTotal_def)
  show "d_discountAmount d = (d_originalPrice d * d_percentOff d) / 100" by (rule f(4))
  show "d_discountedPrice d = d_originalPrice d - d_discountAmount d" by (rule f(5))
  show "0 < d_percentOff d" using g by auto
  show "\<exists>j<length rs.
              checkProductInCollection e (n0 + j) sh tok (productId item) (categoryId (rs ! j))
              \<and> percentOff (rs ! j) = d_percentOff d
              \<and> categoryId (rs ! j) = d_collectionId d"
    using g by auto
  show "\<forall>j<length rs.
              checkProductInCollection e (n0 + j) sh tok (productId item) (categoryId (rs ! j))
              \<longrightarrow> percentOff (rs ! j) \<le> d_percentOff d"
    using findBestDiscount_upper[of _ rs e n0 sh tok "productId item"] f(3) by simp
next
  show "applicableDiscounts (summaryOf ctx (priceResolved e ctx) h)
       = cartEntries e 0 (rs_shop ctx) (rs_token ctx) (rules (rs_plan ctx)) (rs_items ctx)"
    by (simp add: summaryOf_def priceResolved_def priceCart_applicable)
next
  fix d'
  assume "d' \<in> set (applicableDiscounts (summaryOf ctx (priceResolved e ctx) h))"
  then have "d' \<in> set (cartEntries e 0 (rs_shop ctx) (rs_token ctx) (rules (rs_plan ctx))
                         (rs_items ctx))"
    by (simp add: summaryOf_def priceResolved_def priceCart_applicable)
  from cartEntries_line[OF this]
  show "\<exists>k<length (rs_items ctx).
           lineEntry e (k * length (rules (rs_plan ctx))) (rs_shop ctx) (rs_token ctx)
             (rules (rs_plan ctx)) (rs_items ctx ! k) = Some d'"
    by simp
next
  show "totalOriginalPrice (summaryOf ctx (priceResolved e ctx) h)
       = sum_list (map itemTotal (rs_items ctx))"
    by (simp add: summaryOf_def priceResolved_def priceCart_original)
next
  show "totalDiscountAmount (summaryOf ctx (priceResolved e ctx) h)
       = sum_list (map d_discountAmount (applicableDiscounts (summaryOf ctx (priceResolved e ctx) h)))"
    by (simp add: summaryOf_def priceResolved_def priceCart_discount priceCart_applicable)
next
  show "savingsPercentage (summaryOf ctx st h)
       = (if totalOriginalPrice (summaryOf ctx st h) > 0
          then (totalDiscountAmount (summaryOf ctx st h) / totalOriginalPrice (summaryOf ctx st h))
               * 100
          else 0)"
    by (simp add: summaryOf_def)
qed

lemma lineEntry_example:
  "lineEntry exampleEnv 0 ''shop.example'' ''token''
        [\<lparr>categoryId = ''gid://shopify/Collection/42'', percentOff = 15\<rparr>]
        (exampleLine ''gid://shopify/Product/1'' unitPrice qty)
     = Some \<lparr>d_productId = ''gid://shopify/Product/1'',
             d_collectionId = ''gid://shopify/Collection/42'',
             d_percentOff = 15, d_originalPrice = unitPrice * qty,
             d_discountedPrice = unitPrice * qty - (unitPrice * qty * 15) / 100,
             d_discountAmount = (unitPrice * qty * 15) / 100\<rparr>"
  by (simp add: lineEntry_def findBestDiscount_def checkRule_def checkProductInCollection_def
      itemTotal_def exampleEnv_def exampleLine_def)

theorem line_amounts_and_savings_witness:
  "lineEntry exampleEnv 0 ''shop.example'' ''token''
        [\<lparr>categoryId = ''gid://shopify/Collection/42'', percentOff = 15\<rparr>]
        (exampleLine ''gid://shopify/Product/1'' 100 2)
     = Some \<lparr>d_productId = ''gid://shopify/Product/1'',
             d_collectionId = ''gid://shopify/Collection/42'',
             d_percentOff = 15, d_originalPrice = 200,
             d_discountedPrice = 170, d_discountAmount = 30\<rparr>
   \<and> d_originalPrice \<lparr>d_productId = ''gid://shopify/Product/1'',
             d_collectionId = ''gid://shopify/Collection/42'',
             d_percentOff = 15, d_originalPrice = 200,
             d_discountedPrice = 170, d_discountAmount = 30\<rparr> = 100 * 2
   \<and> d_discountAmount \<lparr>d_productId = ''gid://shopify/Product/1'',
             d_collectionId = ''gid://shopify/Collection/42'',
             d_percentOff = 15, d_originalPrice = 200,
             d_discountedPrice = 170, d_discountAmount = 30\<rparr> = (200 * 15) / 100
   \<and> d_discountedPrice \<lparr>d_productId = ''gid://shopify/Product/1'',
             d_collectionId = ''gid://shopify/Collection/42'',
             d_percentOff = 15, d_originalPrice = 200,
             d_discountedPrice = 170, d_discountAmount = 30\<rparr> = 200 - 30"
proof -
  let ?d = "\<lparr>d_productId = ''gid://shopify/Product/1'',
             d_collectionId = ''gid://shopify/Collection/42'',
             d_percentOff = 15, d_originalPrice = 200,
             d_discountedPrice = 170, d_discountAmount = (30::real)\<rparr>"
  have le: "lineEntry exampleEnv 0 ''shop.example'' ''token''
        [\<lparr>categoryId = ''gid://shopify/Collection/42'', percentOff = 15\<rparr>]
        (exampleLine ''gid://shopify/Product/1'' 100 2) = Some ?d"
    using lineEntry_example[of 100 2] by simp
  note inst = line_amounts_and_savings[of exampleEnv 0 "''shop.example''" "''token''"
      "[\<lparr>categoryId = ''gid://shopify/Collection/42'', percentOff = 15\<rparr>]"
      "exampleLine ''gid://shopify/Product/1'' 100 2" ?d, THEN conjunct1, THEN mp, OF le]
  have q: "price (exampleLine ''gid://shopify/Product/1'' 100 2)
      * (case quantity (exampleLine ''gid://shopify/Product/1'' 100 2) of
           None \<Rightarrow> 1 | Some q \<Rightarrow> q) = 100 * 2"
    by (simp add: exampleLine_def)
  have o: "d_originalPrice ?d = 100 * 2"
    using inst[THEN conjunct1] unfolding q .
  have a: "d_discountAmount ?d = (200 * 15) / 100"
    using inst[THEN conjunct2, THEN conjunct1] by simp
  have p: "d_discountedPrice ?d = 200 - 30"
    using inst[THEN conjunct2, THEN conjunct2, THEN conjunct1] by simp
  from le o a p show ?thesis by (intro conjI)
qed

theorem savings_negative_total_counterexample:
  "fst (action exampleEnv (exampleRequest [exampleLine ''gid://shopify/Product/1'' (- 10) 1]))
     = \<lparr>status = 200,
        body = DraftCreatedBody (DraftOrder ''https://shop.example/invoice/1'')
          \<lparr>sm_segment = ''VIP'', sm_planName = ''VIP plan'',
           totalOriginalPrice = - 10, totalDiscountAmount = - (3 / 2),
           totalDiscountedPrice = - (17 / 2), savingsPercentage = 0,
           applicableDiscounts =
             [\<lparr>d_productId = ''gid://shopify/Product/1'',
               d_collectionId = ''gid://shopify/Collection/42'',
               d_percentOff = 15, d_originalPrice = - 10,
               d_discountedPrice = - (17 / 2), d_discountAmount = - (3 / 2)\<rparr>],
           itemsWithDiscount = 1, totalItems = 1, highestDiscountRate = Some 15\<rparr>\<rparr>
   \<and> (- (3 / 2)) / (- 10) * 100 = (15::real)"
proof -
  let ?l = "exampleLine ''gid://shopify/Product/1'' (- 10) 1"
  let ?ctx = "\<lparr>rs_shop = ''shop.example'', rs_token = ''token'', rs_customerId = IdStr ''7'',
          rs_items = [?l],
          rs_segment = \<lparr>segId = ''gid://shopify/Segment/1'', segName = ''VIP''\<rparr>,
          rs_plan = \<lparr>planName = ''VIP plan'', targetType = ''segment'', targetKey = ''VIP'',
            rules = [\<lparr>categoryId = ''gid://shopify/Collection/42'', percentOff = 15\<rparr>]\<rparr>\<rparr>"
  have r: "resolve exampleEnv (exampleRequest [?l]) = Inr ?ctx"
    by (rule resolve_example) simp
  have a: "action exampleEnv (exampleRequest [?l])
      = finish exampleEnv ?ctx (priceResolved exampleEnv ?ctx)"
    by (simp add: action_def r)
  have st: "priceResolved exampleEnv ?ctx =
      \<lparr>c_applicable = [\<lparr>d_productId = ''gid://shopify/Product/1'',
             d_collectionId = ''gid://shopify/Collection/42'',
             d_percentOff = 15, d_originalPrice = - 10,
             d_discountedPrice = - (17 / 2), d_discountAmount = - (3 / 2)\<rparr>],
       c_totalOriginal = - 10, c_totalDiscount = - (3 / 2),
       c_calls = [MembershipCheck ''gid://shopify/Product/1'' ''gid://shopify/Collection/42'']\<rparr>"
    by (simp add: priceResolved_def priceCart_def priceItem_def findBestDiscount_def
        checkRule_def checkProductInCollection_def itemTotal_def Let_def
        exampleEnv_def exampleLine_def)
  show ?thesis
    unfolding a st
    by (simp add: finish_def createDraftOrder_def summaryOf_def json_def Let_def exampleEnv_def
        mathMax_def formatCustomerId_def startsWith_def customerPrefix_def isDigit_def)
qed

section \<open>Order route: the two cart formats\<close>

lemma convertItem_fields:
  "convertItem item = Some c \<Longrightarrow>
     price c = orElse (item_price item) 0 / 100
     \<and> originalPrice c = Some (orElse (item_original_price item) 0 / 100)
     \<and> finalPrice c = Some (orElse (item_final_price item) 0 / 100)
     \<and> quantity c = Some (orElse (item_quantity item) 1)
     \<and> productId c = formatProductId (item_product_id item)"
  by (auto simp: convertItem_def split: option.splits)

lemma convertItems_all2:
  "convertItems items = Some cs \<Longrightarrow> list_all2 (\<lambda>item c. convertItem item = Some c) items cs"
  by (induction items arbitrary: cs) (auto split: option.splits)

lemma convertItem_sameFields:
  assumes "sameFields item line"
  shows "\<exists>c. convertItem item = Some c \<and> productId c = productId line
             \<and> itemTotal c = itemTotal line / 100"
proof -
  from assms have "formatVariantId (item_variant_id item) \<noteq> None"
    by (cases "item_variant_id item") (simp_all add: sameFields_def formatVariantId_def)
  then obtain v where v: "formatVariantId (item_variant_id item) = Some v"
    by blast
  then obtain c where c: "convertItem item = Some c"
    by (simp add: convertItem_def)
  note f = convertItem_fields[OF c]
  have p: "price c = price line / 100"
    using f assms by (simp add: sameFields_def orElse_def)
  have q: "(case quantity c of None \<Rightarrow> 1 | Some q \<Rightarrow> q)
         = (case quantity line of None \<Rightarrow> 1 | Some q \<Rightarrow> q)"
    using f assms by (cases "quantity line") (auto simp: sameFields_def orElse_def)
  have "itemTotal c = itemTotal line / 100"
    unfolding itemTotal_def p q by simp
  with c f assms show ?thesis by (simp add: sameFields_def)
qed

lemma convertItems_sameFields:
  "list_all2 sameFields items lines \<Longrightarrow>
     \<exists>cs. convertItems items = Some cs
          \<and> list_all2 (\<lambda>c line. productId c = productId line
                                \<and> itemTotal c = itemTotal line / 100) cs lines"
proof (induction rule: list_all2_induct)
  case Nil
  show ?case by simp
next
  case (Cons item items line lines)
  from convertItem_sameFields[OF Cons.hyps(1)] obtain c where
    "convertItem item = Some c" "productId c = productId line"
    "itemTotal c = itemTotal line / 100"
    by blast
  moreover from Cons.IH obtain cs where
    "convertItems items = Some cs"
    "list_all2 (\<lambda>c line. productId c = productId line
                         \<and> itemTotal c = itemTotal line / 100) cs lines"
    by blast
  ultimately show ?case by simp
qed

lemma lineEntry_scaled:
  assumes "productId c = productId line" and "itemTotal c = itemTotal line / 100"
  shows "map_option d_discountAmount (lineEntry e n0 sh tok rs c)
       = map_option (\<lambda>d. d_discountAmount d / 100) (lineEntry e n0 sh tok rs line)"
  using assms by (simp add: lineEntry_def split: option.splits)

lemma entry_sum_scaled:
  assumes "productId c = productId line" and "itemTotal c = itemTotal line / 100"
  shows "sum_list (map d_discountAmount
           (case lineEntry e n0 sh tok rs c of None \<Rightarrow> [] | Some d \<Rightarrow> [d]))
       = sum_list (map d_discountAmount
           (case lineEntry e n0 sh tok rs line of None \<Rightarrow> [] | Some d \<Rightarrow> [d])) / 100"
  using lineEntry_scaled[OF assms, of e n0 sh tok rs]
  by (cases "lineEntry e n0 sh tok rs line"; cases "lineEntry e n0 sh tok rs c") auto

lemma originals_scaled:
  assumes "list_all2 (\<lambda>c line. productId c = productId line
                              \<and> itemTotal c = itemTotal line / 100) cs lines"
  shows "sum_list (map itemTotal cs) = sum_list (map itemTotal lines) / 100"
  using assms
  by (induction rule: list_all2_induct) (simp_all add: add_divide_distrib)

lemma discounts_scaled:
  assumes "list_all2 (\<lambda>c line. productId c = productId line
                              \<and> itemTotal c = itemTotal line / 100) cs lines"
  shows "sum_list (map d_discountAmount (cartEntries e n sh tok rs cs))
       = sum_list (map d_discountAmount (cartEntries e n sh tok rs lines)) / 100"
  using assms
proof (induction arbitrary: n rule: list_all2_induct)
  case Nil
  show ?case by simp
next
  case (Cons c cs line lines)
  from Cons.hyps(1) have
    "sum_list (map d_discountAmount
           (case lineEntry e n sh tok rs c of None \<Rightarrow> [] | Some d \<Rightarrow> [d]))
       = sum_list (map d_discountAmount
           (case lineEntry e n sh tok rs line of None \<Rightarrow> [] | Some d \<Rightarrow> [d])) / 100"
    by (intro entry_sum_scaled) simp_all
  with Cons.IH[of "n + length rs"] show ?case
    by (simp add: add_divide_distrib)
qed

text \<open>
  Claim C10 (input-format price asymmetry).  A plain-array cart is used as it is.  Every
  item of a Shopify cart object gets \<open>price\<close>, \<open>original_price\<close> and \<open>final_price\<close> divided
  by 100 (an absent or zero field counting as 0).  Hence, for a cart object and a plain
  array carrying the same numbers, the original total and the discount total of the
  object format are one hundredth of those of the array format, and so differ from them
  whenever they are not 0.
\<close>

theorem cart_formats_price_asymmetry:
  "processCart (CartArray lines) = Inr lines
   \<and> (convertItem item = Some c \<longrightarrow>
        price c = orElse (item_price item) 0 / 100
        \<and> originalPrice c = Some (orElse (item_original_price item) 0 / 100)
        \<and> finalPrice c = Some (orElse (item_final_price item) 0 / 100))
   \<and> (convertItems items = Some cs \<longrightarrow>
        processCart (CartObject (Some items)) = Inr cs
        \<and> list_all2 (\<lambda>item c. convertItem item = Some c) items cs)
   \<and> (list_all2 sameFields items lines \<longrightarrow>
        (\<exists>cs. processCart (CartObject (Some items)) = Inr cs
           \<and> c_totalOriginal (priceCart e sh tok rs cs)
               = c_totalOriginal (priceCart e sh tok rs lines) / 100
           \<and> c_totalDiscount (priceCart e sh tok rs cs)
               = c_totalDiscount (priceCart e sh tok rs lines) / 100
           \<and> (c_totalOriginal (priceCart e sh tok rs lines) \<noteq> 0 \<longrightarrow>
                c_totalOriginal (priceCart e sh tok rs cs)
                  \<noteq> c_totalOriginal (priceCart e sh tok rs lines))
           \<and> (c_totalDiscount (priceCart e sh tok rs lines) \<noteq> 0 \<longrightarrow>
                c_totalDiscount (priceCart e sh tok rs cs)
                  \<noteq> c_totalDiscount (priceCart e sh tok rs lines))))"
proof (intro conjI impI)
  show "processCart (CartArray lines) = Inr lines"
    by (simp add: processCart_def)
next
  assume "convertItem item = Some c"
  from convertItem_fields[OF this]
  show "price c = orElse (item_price item) 0 / 100"
    and "originalPrice c = Some (orElse (item_original_price item) 0 / 100)"
    and "finalPrice c = Some (orElse (item_final_price item) 0 / 100)"
    by simp_all
next
  assume cv: "convertItems items = Some cs"
  then show "processCart (CartObject (Some items)) = Inr cs"
    by (simp add: processCart_def)
  from cv show "list_all2 (\<lambda>item c. convertItem item = Some c) items cs"
    by (rule convertItems_all2)
next
  assume "list_all2 sameFields items lines"
  from convertItems_sameFields[OF this] obtain cs' where
    cv: "convertItems items = Some cs'" and
    rel: "list_all2 (\<lambda>c line. productId c = productId line
                              \<and> itemTotal c = itemTotal line / 100) cs' lines"
    by blast
  have pc: "processCart (CartObject (Some items)) = Inr cs'"
    using cv by (simp add: processCart_def)
  have o: "c_totalOriginal (priceCart e sh tok rs cs')
      = c_totalOriginal (priceCart e sh tok rs lines) / 100"
    unfolding priceCart_original by (rule originals_scaled[OF rel])
  have d: "c_totalDiscount (priceCart e sh tok rs cs')
      = c_totalDiscount (priceCart e sh tok rs lines) / 100"
    unfolding priceCart_discount by (rule discounts_scaled[OF rel])
  have o': "c_totalOriginal (priceCart e sh tok rs cs')
      \<noteq> c_totalOriginal (priceCart e sh tok rs lines)"
    if "c_totalOriginal (priceCart e sh tok rs lines) \<noteq> 0"
    unfolding o using that by simp
  have d': "c_totalDiscount (priceCart e sh tok rs cs')
      \<noteq> c_totalDiscount (priceCart e sh tok rs lines)"
    if "c_totalDiscount (priceCart e sh tok rs lines) \<noteq> 0"
    unfolding d using that by simp
  from pc o d o' d'
  show "\<exists>cs. processCart (CartObject (Some items)) = Inr cs
           \<and> c_totalOriginal (priceCart e sh tok rs cs)
               = c_totalOriginal (priceCart e sh tok rs lines) / 100
           \<and> c_totalDiscount (priceCart e sh tok rs cs)
               = c_totalDiscount (priceCart e sh tok rs lines) / 100
           \<and> (c_totalOriginal (priceCart e sh tok rs lines) \<noteq> 0 \<longrightarrow>
                c_totalOriginal (priceCart e sh tok rs cs)
                  \<noteq> c_totalOriginal (priceCart e sh tok rs lines))
           \<and> (c_totalDiscount (priceCart e sh tok rs lines) \<noteq> 0 \<longrightarrow>
                c_totalDiscount (priceCart e sh tok rs cs)
                  \<noteq> c_totalDiscount (priceCart e sh tok rs lines))"
    by blast
qed

theorem cart_formats_price_asymmetry_witness:
  "sameFields
     \<lparr>item_product_id = IdNum 1, item_variant_id = IdNum 11, item_price = Some 2999,
      item_quantity = Some 1, item_title = ''demo'', item_original_price = Some 2999,
      item_final_price = Some 2999\<rparr>
     (exampleLine ''gid://shopify/Product/1'' 2999 1)
   \<and> c_totalOriginal (priceCart exampleEnv ''shop.example'' ''token''
        [\<lparr>categoryId = ''gid://shopify/Collection/42'', percentOff = 15\<rparr>]
        [exampleLine ''gid://shopify/Product/1'' 2999 1]) = 2999
   \<and> processCart (CartObject (Some
        [\<lparr>item_product_id = IdNum 1, item_variant_id = IdNum 11, item_price = Some 2999,
          item_quantity = Some 1, item_title = ''demo'', item_original_price = Some 2999,
          item_final_price = Some 2999\<rparr>]))
       = Inr [\<lparr>productId = ''gid://shopify/Product/1'', price = 2999 / 100,
               quantity = Some 1, variantId = ''gid://shopify/ProductVariant/11'',
               title = ''demo'', originalPrice = Some (2999 / 100),
               finalPrice = Some (2999 / 100)\<rparr>]
   \<and> c_totalOriginal (priceCart exampleEnv ''shop.example'' ''token''
        [\<lparr>categoryId = ''gid://shopify/Collection/42'', percentOff = 15\<rparr>]
        [\<lparr>productId = ''gid://shopify/Product/1'', price = 2999 / 100,
          quantity = Some 1, variantId = ''gid://shopify/ProductVariant/11'',
          title = ''demo'', originalPrice = Some (2999 / 100),
          finalPrice = Some (2999 / 100)\<rparr>]) = 2999 / 100"
proof -
  let ?item = "\<lparr>item_product_id = IdNum 1, item_variant_id = IdNum 11, item_price = Some 2999,
      item_quantity = Some 1, item_title = ''demo'', item_original_price = Some 2999,
      item_final_price = Some 2999\<rparr>"
  let ?line = "exampleLine ''gid://shopify/Product/1'' 2999 1"
  let ?c = "\<lparr>productId = ''gid://shopify/Product/1'', price = 2999 / 100,
          quantity = Some 1, variantId = ''gid://shopify/ProductVariant/11'',
          title = ''demo'', originalPrice = Some (2999 / 100),
          finalPrice = Some (2999 / 100 :: real)\<rparr>"
  let ?rs = "[\<lparr>categoryId = ''gid://shopify/Collection/42'', percentOff = 15\<rparr>]"
  have d1: "digitsOf (Suc 0) = ''1''" and d11: "digitsOf 11 = ''11''"
    by (simp_all add: digitsOf.simps[of "Suc 0"] digitsOf.simps[of 11] digitChar_def)
  have sf: "sameFields ?item ?line"
    by (simp add: sameFields_def exampleLine_def formatProductId_def productPrefix_def d1)
  have pc: "processCart (CartObject (Some [?item])) = Inr [?c]"
    by (simp add: processCart_def convertItem_def formatVariantId_def formatProductId_def
        productPrefix_def variantPrefix_def orElse_def d1 d11)
  have arr: "c_totalOriginal (priceCart exampleEnv ''shop.example'' ''token'' ?rs [?line]) = 2999"
    by (simp add: priceCart_original itemTotal_def exampleLine_def)
  from cart_formats_price_asymmetry
    [of "[?line]" ?item ?c "[?item]" "[?c]" exampleEnv "''shop.example''" "''token''" ?rs,
      THEN conjunct2, THEN conjunct2, THEN conjunct2] sf
  obtain cs where cs: "processCart (CartObject (Some [?item])) = Inr cs"
    and tot: "c_totalOriginal (priceCart exampleEnv ''shop.example'' ''token'' ?rs cs)
        = c_totalOriginal (priceCart exampleEnv ''shop.example'' ''token'' ?rs [?line]) / 100"
    by auto
  from cs pc have "cs = [?c]" by simp
  with tot arr have obj:
    "c_totalOriginal (priceCart exampleEnv ''shop.example'' ''token'' ?rs [?c]) = 2999 / 100"
    by simp
  from sf arr pc obj show ?thesis by (intro conjI)
qed

end
